theory Spec2Isabelle
  imports
    Complex_Main
    "HOL-Library.Char_ord"
    "HOL-Library.List_Lexorder"
    "HOL-Library.Product_Lexorder"
begin

section \<open>Strings and truthiness\<close>

text \<open>
  Strings of \<^verbatim>\<open>bot.py\<close> are modelled as \<^typ>\<open>string\<close>, one \<^typ>\<open>char\<close> per
  character.  The character classes below are the ones Python's \<^verbatim>\<open>str\<close> methods and
  the \<^verbatim>\<open>re\<close> module use on the ASCII range: \<^verbatim>\<open>\s\<close> and \<^verbatim>\<open>str.strip\<close>/\<^verbatim>\<open>str.split\<close>
  treat the codes 9..13, 28..31 and 32 as whitespace, \<^verbatim>\<open>\d\<close> the digits, \<^verbatim>\<open>\w\<close> letters,
  digits and the underscore, and \<^verbatim>\<open>str.lower\<close> maps A..Z to a..z.  Codes from 128 on
  stand for the bytes of non-ASCII letters (as in the hint words of \<^verbatim>\<open>LANG_HINTS\<close>); they
  are kept as word characters and left unchanged by \<open>lower\<close>.  Statements below are
  exact for ASCII text.  Outside ASCII Python differs: \<^verbatim>\<open>\d\<close> and \<^verbatim>\<open>\s\<close> also match
  the digits and the spaces of other scripts (the no-break space among them), \<^verbatim>\<open>\w\<close>
  leaves out the symbols and the punctuation beyond code 127, \<^verbatim>\<open>str.lower\<close> lowers
  every cased letter, and \<^verbatim>\<open>re.IGNORECASE\<close> lets the dotless and the dotted i match
  the letter i.  \<open>is_ascii\<close> marks the range on which the classes are exact.
\<close>

definition is_ascii :: "char \<Rightarrow> bool" where
  "is_ascii c \<longleftrightarrow> (of_char c :: nat) < 128"

definition is_space :: "char \<Rightarrow> bool" where
  "is_space c \<longleftrightarrow> (let n = (of_char c :: nat) in (9 \<le> n \<and> n \<le> 13) \<or> (28 \<le> n \<and> n \<le> 32))"

definition is_digit :: "char \<Rightarrow> bool" where
  "is_digit c \<longleftrightarrow> (let n = (of_char c :: nat) in 48 \<le> n \<and> n \<le> 57)"

definition is_upper :: "char \<Rightarrow> bool" where
  "is_upper c \<longleftrightarrow> (let n = (of_char c :: nat) in 65 \<le> n \<and> n \<le> 90)"

definition is_word :: "char \<Rightarrow> bool" where
  "is_word c \<longleftrightarrow> (let n = (of_char c :: nat) in
     (48 \<le> n \<and> n \<le> 57) \<or> (65 \<le> n \<and> n \<le> 90) \<or> (97 \<le> n \<and> n \<le> 122) \<or> n = 95 \<or> 128 \<le> n)"

definition lower_char :: "char \<Rightarrow> char" where
  "lower_char c = (if is_upper c then char_of ((of_char c :: nat) + 32) else c)"

text \<open>\<^verbatim>\<open>str.lower()\<close>.\<close>

definition lower :: "string \<Rightarrow> string" where
  "lower s = map lower_char s"

text \<open>\<^verbatim>\<open>str.strip()\<close>: whitespace is removed at both ends.\<close>

definition strip :: "string \<Rightarrow> string" where
  "strip s = rev (dropWhile is_space (rev (dropWhile is_space s)))"

text \<open>\<^verbatim>\<open>re.sub(r"[^\w\s#\.]", " ", text)\<close>: every character outside the class becomes a space.\<close>

definition sub_noise :: "string \<Rightarrow> string" where
  "sub_noise s = map (\<lambda>c. if is_word c \<or> is_space c \<or> c = CHR ''#'' \<or> c = CHR ''.'' then c else CHR '' '') s"

text \<open>\<^verbatim>\<open>re.sub(r"\s+", " ", text)\<close>: every maximal run of whitespace becomes one space.\<close>

function sub_spaces :: "string \<Rightarrow> string" where
  "sub_spaces [] = []"
| "sub_spaces (c # cs) =
     (if is_space c then CHR '' '' # sub_spaces (dropWhile is_space cs)
      else c # sub_spaces cs)"
  by pat_completeness auto
termination
  by (relation "measure length") (auto simp: length_dropWhile_le less_Suc_eq_le)

text \<open>
  \<^verbatim>\<open>normalize\<close> (HOL has a constant of that name, hence the suffix): the three
  statements of the source in their order; the strip comes first, on the lowercased input.
\<close>

definition normalize_str :: "string \<Rightarrow> string" where
  "normalize_str text = sub_spaces (sub_noise (strip (lower text)))"

text \<open>\<^verbatim>\<open>str.split()\<close> without argument: the maximal runs of non-whitespace.\<close>

function split_ws :: "string \<Rightarrow> string list" where
  "split_ws [] = []"
| "split_ws (c # cs) =
     (if is_space c then split_ws cs
      else (c # takeWhile (\<lambda>x. \<not> is_space x) cs) # split_ws (dropWhile (\<lambda>x. \<not> is_space x) cs))"
  by pat_completeness auto
termination
  by (relation "measure length") (auto simp: length_dropWhile_le less_Suc_eq_le)

text \<open>
  Python's truth value of a slot or argument that holds \<^verbatim>\<open>None\<close> or a string:
  \<^verbatim>\<open>None\<close> and the empty string are falsy.
\<close>

fun truthy :: "string option \<Rightarrow> bool" where
  "truthy None = False"
| "truthy (Some s) = (s \<noteq> [])"

text \<open>\<^verbatim>\<open>a or b\<close> on such values.\<close>

definition py_or :: "string option \<Rightarrow> string option \<Rightarrow> string option" where
  "py_or a b = (if truthy a then a else b)"

section \<open>Detectors\<close>

text \<open>
  \<^verbatim>\<open>LANG_HINTS\<close> and \<^verbatim>\<open>VARIANT_HINTS\<close>, in the insertion order the dictionaries are
  iterated in.  The two accented hint words are written with their UTF-8 bytes.
\<close>

definition LANG_HINTS :: "(string \<times> string list) list" where
  "LANG_HINTS =
     [(''es'', [''es'', ''spa'', ''spanish'', ''espa'' @ [CHR 0xC3, CHR 0xB1] @ ''ol'', ''espanol'',
                ''castellano'', ''spagnolo'']),
      (''en'', [''en'', ''eng'', ''english'', ''inglese'', ''ingl'' @ [CHR 0xC3, CHR 0xA9] @ ''s'',
                ''ingles''])]"

definition VARIANT_HINTS :: "(string \<times> string list) list" where
  "VARIANT_HINTS =
     [(''broker'', [''broker'', ''bf'', ''brok'']),
      (''standard'', [''standard'', ''std'', ''normale''])]"

text \<open>The loop of \<^verbatim>\<open>detect_lang\<close> and \<^verbatim>\<open>detect_variant\<close> over the items of a hint table.\<close>

fun first_hint :: "(string \<times> string list) list \<Rightarrow> string list \<Rightarrow> string option" where
  "first_hint [] tokens = None"
| "first_hint ((name, hints) # rest) tokens =
     (if set tokens \<inter> set hints \<noteq> {} then Some name else first_hint rest tokens)"

definition detect_lang :: "string \<Rightarrow> string option" where
  "detect_lang query = first_hint LANG_HINTS (split_ws (normalize_str query))"

definition detect_variant :: "string \<Rightarrow> string option" where
  "detect_variant query = first_hint VARIANT_HINTS (split_ws (normalize_str query))"

text \<open>
  \<^verbatim>\<open>UNIT_REF_REGEX = (#|unit|unidad|ordine|order|n\.?)\s*(\d{1,5})\<close>, case-insensitive.
  \<open>group1_alts\<close> lists the ways group 1 can match in the order the regex engine tries
  them; the optional dot of the last alternative is greedy, so \<open>n.\<close> is tried before
  \<open>n\<close>.
\<close>

definition group1_alts :: "string list" where
  "group1_alts = [''#'', ''unit'', ''unidad'', ''ordine'', ''order'', ''n.'', ''n'']"

text \<open>The literal \<open>p\<close> (lowercase) matches at the start of \<open>s\<close>, ignoring case.\<close>

definition istartswith :: "string \<Rightarrow> string \<Rightarrow> bool" where
  "istartswith p s \<longleftrightarrow> length p \<le> length s \<and> lower (take (length p) s) = p"

text \<open>
  \<^verbatim>\<open>\s*(\d{1,5})\<close> at the start of \<open>s\<close>; the result is group 2.  Both quantifiers are greedy.
  Giving back whitespace cannot help, as the character then facing \<^verbatim>\<open>\d\<close> is a
  whitespace, and nothing follows the digit group, so the first successful path is the
  one that takes all the whitespace and then up to five digits.
\<close>

definition match_tail :: "string \<Rightarrow> string option" where
  "match_tail s =
     (let ds = takeWhile is_digit (take 5 (dropWhile is_space s))
      in if ds = [] then None else Some ds)"

text \<open>The alternatives of group 1 tried in order at the start of \<open>s\<close>, with backtracking.\<close>

fun match_alts :: "string list \<Rightarrow> string \<Rightarrow> string option" where
  "match_alts [] s = None"
| "match_alts (a # as) s =
     (if istartswith a s
      then (case match_tail (drop (length a) s) of
              Some ds \<Rightarrow> Some ds
            | None \<Rightarrow> match_alts as s)
      else match_alts as s)"

definition match_at :: "string \<Rightarrow> string option" where
  "match_at s = match_alts group1_alts s"

text \<open>\<^verbatim>\<open>UNIT_REF_REGEX.search\<close>: the match at the leftmost position that has one.\<close>

fun regex_search :: "string \<Rightarrow> string option" where
  "regex_search [] = match_at []"
| "regex_search (c # cs) =
     (case match_at (c # cs) of
        Some ds \<Rightarrow> Some ds
      | None \<Rightarrow> regex_search cs)"

definition detect_unit_ref :: "string \<Rightarrow> string option" where
  "detect_unit_ref query = regex_search query"

section \<open>Catalog and matching\<close>

text \<open>
  One row of \<^verbatim>\<open>CATALOG\<close>: the dictionary \<^verbatim>\<open>load_catalog\<close> builds for each CSV row.
  Every row has all nine keys, so \<^verbatim>\<open>u.get("delivery", "")\<close> is \<^verbatim>\<open>u["delivery"]\<close>.
\<close>

record item =
  brand :: string
  model :: string
  unit_ref :: string
  variant :: string
  lang :: string
  availability :: string
  delivery :: string
  url :: string
  keys_norm :: "string list"

text \<open>
  Modelled from the spec: \<^verbatim>\<open>process.extractOne(qn, choices, scorer=fuzz.WRatio)\<close> of the
  rapidfuzz library, whose code is not among the sources.  The scorer is a parameter; the
  selection is the one the specification describes for the fuzzy matcher: the highest
  score wins, the first of equal scores is kept, and an empty list of choices gives no
  hit.  The hit is the triple of choice, score and index.
\<close>

fun extract_from :: "(string \<Rightarrow> string \<Rightarrow> real) \<Rightarrow> string \<Rightarrow> nat \<Rightarrow> string list
    \<Rightarrow> (string \<times> real \<times> nat) option \<Rightarrow> (string \<times> real \<times> nat) option" where
  "extract_from scorer qn i [] best = best"
| "extract_from scorer qn i (c # cs) best =
     (let sc = scorer qn c in
      extract_from scorer qn (Suc i) cs
        (case best of
           None \<Rightarrow> Some (c, sc, i)
         | Some (bc, bs, bi) \<Rightarrow> if bs < sc then Some (c, sc, i) else Some (bc, bs, bi)))"

definition extractOne :: "(string \<Rightarrow> string \<Rightarrow> real) \<Rightarrow> string \<Rightarrow> string list
    \<Rightarrow> (string \<times> real \<times> nat) option" where
  "extractOne scorer qn choices = extract_from scorer qn 0 choices None"

text \<open>
  \<^verbatim>\<open>best_model_match\<close>.  The two nested loops append one choice and one mapping entry per
  key of every item; the global \<^verbatim>\<open>CATALOG\<close> is the parameter \<open>catalog\<close>.
\<close>

definition choice_pairs :: "item list \<Rightarrow> (string \<times> item) list" where
  "choice_pairs catalog = concat (map (\<lambda>it. map (\<lambda>k. (k, it)) (keys_norm it)) catalog)"

definition best_model_match :: "(string \<Rightarrow> string \<Rightarrow> real) \<Rightarrow> item list \<Rightarrow> string
    \<Rightarrow> item option \<times> real" where
  "best_model_match scorer catalog query =
     (let qn = normalize_str query;
          choices = map fst (choice_pairs catalog);
          mapping = map snd (choice_pairs catalog)
      in case extractOne scorer qn choices of
           None \<Rightarrow> (None, 0)
         | Some (c, sc, i) \<Rightarrow> (Some (mapping ! i), sc))"

text \<open>\<^verbatim>\<open>candidates_for_query\<close>.\<close>

definition candidates_for_query :: "(string \<Rightarrow> string \<Rightarrow> real) \<Rightarrow> item list \<Rightarrow> string
    \<Rightarrow> item list \<times> real" where
  "candidates_for_query scorer catalog query =
     (let want_unit = detect_unit_ref query;
          (base_item, score) = best_model_match scorer catalog query
      in case base_item of
           None \<Rightarrow> ([], score)
         | Some b \<Rightarrow>
             if score < 70 then ([], score)
             else
               (let cands = filter (\<lambda>x. brand x = brand b \<and> model x = model b) catalog;
                    filtered = filter (\<lambda>x. Some (unit_ref x) = want_unit) cands
                in if truthy want_unit \<and> filtered \<noteq> [] then (filtered, score)
                   else (cands, score)))"

text \<open>
  \<^verbatim>\<open>unique_units\<close>.  The dictionary \<^verbatim>\<open>units\<close> keeps insertion order, so it is an
  association list; \<^verbatim>\<open>setdefault\<close> leaves an existing key alone and appends a new one.
\<close>

definition unit_rank :: "item \<Rightarrow> nat \<times> string \<times> string" where
  "unit_rank u = (if availability u = ''in_stock'' then 0 else 1, delivery u, unit_ref u)"

definition setdefault :: "(string \<times> item) list \<Rightarrow> string \<Rightarrow> item \<Rightarrow> (string \<times> item) list" where
  "setdefault units k v = (if map_of units k = None then units @ [(k, v)] else units)"

definition units_dict :: "item list \<Rightarrow> (string \<times> item) list" where
  "units_dict cands = foldl (\<lambda>units x. setdefault units (unit_ref x) x) [] cands"

text \<open>
  The keys that are looked up in the last line of \<^verbatim>\<open>unique_units\<close> are the keys of the
  dictionary itself, so the lookup cannot raise (lemma \<open>units_dict_lookup\<close> below).
\<close>

definition unique_units :: "item list \<Rightarrow> item list" where
  "unique_units cands =
     (let units = units_dict cands
      in map (\<lambda>k. the (map_of units k))
           (sort_key (\<lambda>ur. unit_rank (the (map_of units ur))) (map fst units)))"

text \<open>The sorted list of keys inside \<^verbatim>\<open>unique_units\<close>, named for the proofs.\<close>

definition sorted_keys :: "item list \<Rightarrow> string list" where
  "sorted_keys cands =
     sort_key (\<lambda>ur. unit_rank (the (map_of (units_dict cands) ur))) (map fst (units_dict cands))"

text \<open>\<^verbatim>\<open>filter_doc\<close>: a filter is applied only when its argument is truthy.\<close>

definition filter_doc :: "item list \<Rightarrow> string option \<Rightarrow> string option \<Rightarrow> string option \<Rightarrow> item list" where
  "filter_doc cands unit_ref' lang' variant' =
     (let out = cands;
          out = (if truthy unit_ref' then filter (\<lambda>x. Some (unit_ref x) = unit_ref') out else out);
          out = (if truthy lang' then filter (\<lambda>x. Some (lang x) = lang') out else out);
          out = (if truthy variant' then filter (\<lambda>x. Some (variant x) = variant') out else out)
      in out)"

section \<open>Interactive flow\<close>

text \<open>
  The dictionary stored under \<^verbatim>\<open>context.user_data["flow"]\<close>.  The key \<^verbatim>\<open>stage\<close> holds
  \<^verbatim>\<open>None\<close>, \<^verbatim>\<open>"unit"\<close>, \<^verbatim>\<open>"lang"\<close> or \<^verbatim>\<open>"variant"\<close>.
\<close>

datatype stage = StageUnit | StageLang | StageVariant

record flow =
  flow_query :: "string option"
  flow_cands :: "item list"
  flow_unit_ref :: "string option"
  flow_lang :: "string option"
  flow_variant :: "string option"
  flow_stage :: "stage option"

text \<open>
  The messages the handlers send.  Each constructor stands for one \<^verbatim>\<open>reply_text\<close> or
  \<^verbatim>\<open>edit_message_text\<close> call of the source; the text of the message is fixed by the
  constructor and its argument (the document message is formatted from the item, the unit
  question carries one button per listed unit and a cancel button).
\<close>

datatype reply =
    NoSheetFound
  | NoCompatibleDocument
  | Document item
  | AskUnit "item list"
  | AskLang
  | AskVariant
  | EditCancelled
  | EditUnit string
  | EditLang string
  | EditVariant string
  | ReplyStart
  | ReplyCancelled

text \<open>
  \<^verbatim>\<open>context.user_data\<close> restricted to its only key: \<open>None\<close> when \<^verbatim>\<open>"flow"\<close> is absent.
  \<^verbatim>\<open>reset_flow\<close> pops the key; \<^verbatim>\<open>ensure_flow\<close> stores a fresh dictionary when it is absent.
\<close>

type_synonym user_data = "flow option"

definition reset_flow :: "user_data \<Rightarrow> user_data" where
  "reset_flow ud = None"

definition new_flow :: flow where
  "new_flow = \<lparr>flow_query = None, flow_cands = [], flow_unit_ref = None, flow_lang = None,
               flow_variant = None, flow_stage = None\<rparr>"

definition ensure_flow :: "user_data \<Rightarrow> flow" where
  "ensure_flow ud = (case ud of None \<Rightarrow> new_flow | Some f \<Rightarrow> f)"

text \<open>
  The three questions return the updated flow, the flag \<^verbatim>\<open>asked\<close> and the messages sent.
\<close>

definition ask_unit :: "flow \<Rightarrow> flow \<times> bool \<times> reply list" where
  "ask_unit f =
     (let units = unique_units (flow_cands f)
      in if length units \<le> 1
         then (f\<lparr>flow_unit_ref := (case units of [] \<Rightarrow> None | u # _ \<Rightarrow> Some (unit_ref u))\<rparr>,
               False, [])
         else (f\<lparr>flow_stage := Some StageUnit\<rparr>, True, [AskUnit (take 10 units)]))"

definition ask_lang :: "flow \<Rightarrow> flow \<times> bool \<times> reply list" where
  "ask_lang f =
     (if truthy (flow_lang f) then (f, False, [])
      else (f\<lparr>flow_stage := Some StageLang\<rparr>, True, [AskLang]))"

definition ask_variant :: "flow \<Rightarrow> flow \<times> bool \<times> reply list" where
  "ask_variant f =
     (if truthy (flow_variant f) then (f, False, [])
      else (f\<lparr>flow_stage := Some StageVariant\<rparr>, True, [AskVariant]))"

text \<open>
  \<^verbatim>\<open>finalize_and_send\<close>: the filter and its three fallbacks, each tried only while
  \<^verbatim>\<open>docs\<close> is empty; both exits reset the flow.
\<close>

definition finalize_and_send :: "flow \<Rightarrow> user_data \<times> reply list" where
  "finalize_and_send f =
     (let docs = filter_doc (flow_cands f) (flow_unit_ref f) (flow_lang f) (flow_variant f);
          docs = (if docs = [] \<and> truthy (flow_lang f) \<and> truthy (flow_variant f)
                  then filter_doc (flow_cands f) (flow_unit_ref f) (flow_lang f) None else docs);
          docs = (if docs = [] \<and> truthy (flow_lang f)
                  then filter_doc (flow_cands f) (flow_unit_ref f) (flow_lang f) None else docs);
          docs = (if docs = []
                  then filter_doc (flow_cands f) (flow_unit_ref f) None None else docs)
      in case docs of
           [] \<Rightarrow> (reset_flow (Some f), [NoCompatibleDocument])
         | item # _ \<Rightarrow> (reset_flow (Some f), [Document item]))"

text \<open>\<^verbatim>\<open>run_flow\<close>: a text query arrives.\<close>

definition run_flow :: "(string \<Rightarrow> string \<Rightarrow> real) \<Rightarrow> item list \<Rightarrow> user_data \<Rightarrow> string
    \<Rightarrow> user_data \<times> reply list" where
  "run_flow scorer catalog ud query =
     (let f = ensure_flow ud;
          f = f\<lparr>flow_query := Some query\<rparr>;
          f = f\<lparr>flow_lang := py_or (detect_lang query) (flow_lang f)\<rparr>;
          f = f\<lparr>flow_variant := py_or (detect_variant query) (flow_variant f)\<rparr>;
          unit = detect_unit_ref query;
          f = (if truthy unit then f\<lparr>flow_unit_ref := unit\<rparr> else f);
          (cands, score) = candidates_for_query scorer catalog query
      in if cands = [] then (reset_flow (Some f), [NoSheetFound])
         else
           (let f = f\<lparr>flow_cands := cands\<rparr>;
                (f, asked, out1) = (if \<not> truthy (flow_unit_ref f) then ask_unit f else (f, False, []))
            in if asked then (Some f, out1)
               else
                 (let (f, asked, out2) = ask_lang f
                  in if asked then (Some f, out1 @ out2)
                     else
                       (let (f, asked, out3) = ask_variant f
                        in if asked then (Some f, out1 @ out2 @ out3)
                           else
                             (let (ud', out4) = finalize_and_send f
                              in (ud', out1 @ out2 @ out3 @ out4))))))"

text \<open>
  Two stations inside \<^verbatim>\<open>run_flow\<close>, named for the proofs: the flow at the point where
  the candidates are stored, and the flow after the unit step that asked nothing.
\<close>

definition prefilled :: "user_data \<Rightarrow> string \<Rightarrow> item list \<Rightarrow> flow" where
  "prefilled ud q cs =
     (ensure_flow ud)\<lparr>flow_query := Some q,
        flow_lang := py_or (detect_lang q) (flow_lang (ensure_flow ud)),
        flow_variant := py_or (detect_variant q) (flow_variant (ensure_flow ud)),
        flow_unit_ref := (if truthy (detect_unit_ref q) then detect_unit_ref q
                          else flow_unit_ref (ensure_flow ud)),
        flow_cands := cs\<rparr>"

definition unit_settled :: "flow \<Rightarrow> flow" where
  "unit_settled g =
     (if truthy (flow_unit_ref g) then g
      else g\<lparr>flow_unit_ref :=
             (case unique_units (flow_cands g) of [] \<Rightarrow> None | u # _ \<Rightarrow> Some (unit_ref u))\<rparr>)"

text \<open>\<^verbatim>\<open>handle_text\<close>, \<^verbatim>\<open>start\<close> and \<^verbatim>\<open>cancel\<close>.\<close>

definition handle_text :: "(string \<Rightarrow> string \<Rightarrow> real) \<Rightarrow> item list \<Rightarrow> user_data \<Rightarrow> string
    \<Rightarrow> user_data \<times> reply list" where
  "handle_text scorer catalog ud text = run_flow scorer catalog ud (strip text)"

definition start :: "user_data \<Rightarrow> user_data \<times> reply list" where
  "start ud = (reset_flow ud, [ReplyStart])"

definition cancel :: "user_data \<Rightarrow> user_data \<times> reply list" where
  "cancel ud = (reset_flow ud, [ReplyCancelled])"

text \<open>
  \<^verbatim>\<open>handle_callback\<close>.  \<^verbatim>\<open>startswith\<close> is the prefix test and \<^verbatim>\<open>q.data.split(":", 1)[1]\<close>
  the text after the first colon (each prefix contains one).  The value returned by
  \<^verbatim>\<open>ask_lang\<close> and \<^verbatim>\<open>ask_variant\<close> is not used by the handler.  A callback with any other
  data sends nothing, and the flow \<^verbatim>\<open>ensure_flow\<close> stored stays.
\<close>

definition CB_UNIT :: string where "CB_UNIT = ''UNIT:''"
definition CB_LANG :: string where "CB_LANG = ''LANG:''"
definition CB_VAR :: string where "CB_VAR = ''VAR:''"
definition CB_CANCEL :: string where "CB_CANCEL = ''CANCEL''"

definition startswith :: "string \<Rightarrow> string \<Rightarrow> bool" where
  "startswith s p \<longleftrightarrow> take (length p) s = p"

definition after_colon :: "string \<Rightarrow> string" where
  "after_colon s = tl (dropWhile (\<lambda>c. c \<noteq> CHR '':'') s)"

definition handle_callback :: "user_data \<Rightarrow> string \<Rightarrow> user_data \<times> reply list" where
  "handle_callback ud data =
     (let f = ensure_flow ud
      in if data = CB_CANCEL then (reset_flow (Some f), [EditCancelled])
         else if startswith data CB_UNIT then
           (let unit = after_colon data;
                f = f\<lparr>flow_unit_ref := Some unit\<rparr>;
                (f, asked, out) = ask_lang f
            in (Some f, EditUnit unit # out))
         else if startswith data CB_LANG then
           (let lang' = after_colon data;
                f = f\<lparr>flow_lang := Some lang'\<rparr>;
                (f, asked, out) = ask_variant f
            in (Some f, EditLang lang' # out))
         else if startswith data CB_VAR then
           (let var = after_colon data;
                f = f\<lparr>flow_variant := Some var\<rparr>;
                (ud', out) = finalize_and_send f
            in (ud', EditVariant var # out))
         else (Some f, []))"

section \<open>A small catalog\<close>

text \<open>
  Three sheets of one model with two units, and one sheet of another model.  The scorer
  \<open>prefix_scorer\<close> gives 100 to a key the query begins with, 40 to a key that shares
  its first character with the query, and 0 otherwise.
\<close>

definition p43_126_es :: item where
  "p43_126_es = \<lparr>brand = ''Pardo'', model = ''P43'', unit_ref = ''126'', variant = ''standard'',
     lang = ''es'', availability = ''on_order'', delivery = ''2026-05'', url = ''u1'',
     keys_norm = [''p43'', ''pardo p43'']\<rparr>"

definition p43_126_en :: item where
  "p43_126_en = \<lparr>brand = ''Pardo'', model = ''P43'', unit_ref = ''126'', variant = ''broker'',
     lang = ''en'', availability = ''on_order'', delivery = ''2026-05'', url = ''u2'',
     keys_norm = [''p43'', ''pardo p43'']\<rparr>"

definition p43_130_es :: item where
  "p43_130_es = \<lparr>brand = ''Pardo'', model = ''P43'', unit_ref = ''130'', variant = ''standard'',
     lang = ''es'', availability = ''in_stock'', delivery = [], url = ''u3'',
     keys_norm = [''p43'', ''pardo p43'']\<rparr>"

definition so455_49_es :: item where
  "so455_49_es = \<lparr>brand = ''Jeanneau'', model = ''SO455'', unit_ref = ''49'', variant = ''standard'',
     lang = ''es'', availability = ''in_stock'', delivery = [], url = ''u4'',
     keys_norm = [''so455'', ''jeanneau so455'']\<rparr>"

definition small_catalog :: "item list" where
  "small_catalog = [p43_126_es, p43_126_en, p43_130_es, so455_49_es]"

definition prefix_scorer :: "string \<Rightarrow> string \<Rightarrow> real" where
  "prefix_scorer qn k =
     (if take (length k) qn = k then 100 else if take 1 qn = take 1 k then 40 else 0)"

text \<open>
  Five sheets of one model, listed against the order of the units: unit 21 comes before
  unit 20 with the same delivery, unit 35 with an earlier delivery comes after both, a
  second sheet of unit 21 is in stock, and the only unit whose first sheet is in stock
  comes last, with the latest delivery.
\<close>

definition unit_row :: "string \<Rightarrow> string \<Rightarrow> string \<Rightarrow> item" where
  "unit_row u av d = \<lparr>brand = ''Jeanneau'', model = ''SO455'', unit_ref = u, variant = ''standard'',
     lang = ''es'', availability = av, delivery = d, url = [], keys_norm = [''so455'']\<rparr>"

definition so455_units :: "item list" where
  "so455_units = [unit_row ''21'' ''on_order'' ''2026-09'', unit_row ''20'' ''on_order'' ''2026-09'',
     unit_row ''35'' ''on_order'' ''2026-03'', unit_row ''21'' ''in_stock'' ''2025-12'',
     unit_row ''48'' ''in_stock'' ''2027-01'']"

section \<open>The document filter and the finalizer\<close>

lemma filter_doc_conv:
  "filter_doc cs u l v =
     filter (\<lambda>x. (truthy u \<longrightarrow> Some (unit_ref x) = u) \<and> (truthy l \<longrightarrow> Some (lang x) = l)
                 \<and> (truthy v \<longrightarrow> Some (variant x) = v)) cs"
  by (auto simp: filter_doc_def Let_def intro: filter_cong)

lemma filter_doc_subset: "set (filter_doc cs u l v) \<subseteq> set cs"
  by (auto simp: filter_doc_conv)

lemma filter_doc_drop_variant:
  "filter_doc cs u l None = [] \<Longrightarrow> filter_doc cs u l v = []"
  by (auto simp: filter_doc_conv filter_empty_conv)

lemma filter_doc_unit_only:
  "filter_doc cs u None None = (if truthy u then filter (\<lambda>x. Some (unit_ref x) = u) cs else cs)"
  by (simp add: filter_doc_def Let_def)

lemma filter_doc_falsy_lang:
  "\<not> truthy l \<Longrightarrow> filter_doc cs u l v = filter_doc cs u None v"
  by (simp add: filter_doc_conv)

lemma filter_doc_falsy_variant:
  "\<not> truthy v \<Longrightarrow> filter_doc cs u l v = filter_doc cs u l None"
  by (simp add: filter_doc_conv)

lemma filter_doc_unit_empty:
  "filter_doc cs u None None = [] \<Longrightarrow> filter_doc cs u l v = []"
  by (auto simp: filter_doc_conv filter_empty_conv)

lemma filter_doc_mono:
  "set (filter_doc cs u l v) \<subseteq> set (filter_doc cs u None None)"
  by (auto simp: filter_doc_conv)

text \<open>
  The chain of \<^verbatim>\<open>finalize_and_send\<close> in closed form: the full filter, then unit and
  language, then the unit alone.  The repeated second fallback adds nothing.
\<close>

lemma finalize_chain:
  "finalize_and_send f =
     (None,
      case (if filter_doc (flow_cands f) (flow_unit_ref f) (flow_lang f) (flow_variant f) \<noteq> []
            then filter_doc (flow_cands f) (flow_unit_ref f) (flow_lang f) (flow_variant f)
            else if filter_doc (flow_cands f) (flow_unit_ref f) (flow_lang f) None \<noteq> []
            then filter_doc (flow_cands f) (flow_unit_ref f) (flow_lang f) None
            else filter_doc (flow_cands f) (flow_unit_ref f) None None) of
        [] \<Rightarrow> [NoCompatibleDocument]
      | d # _ \<Rightarrow> [Document d])"
proof (cases "truthy (flow_lang f)")
  case l: True
  show ?thesis
  proof (cases "truthy (flow_variant f)")
    case True
    with l show ?thesis
      by (simp add: finalize_and_send_def reset_flow_def split: list.splits)
  next
    case False
    from filter_doc_falsy_variant [OF False] l show ?thesis
      by (simp add: finalize_and_send_def reset_flow_def split: list.splits)
  qed
next
  case False
  then have "filter_doc (flow_cands f) (flow_unit_ref f) (flow_lang f) None
      = filter_doc (flow_cands f) (flow_unit_ref f) None None"
    by (rule filter_doc_falsy_lang)
  with False show ?thesis
    by (simp add: finalize_and_send_def reset_flow_def split: list.splits)
qed

lemma finalize_nomatch_iff:
  "snd (finalize_and_send f) = [NoCompatibleDocument]
     \<longleftrightarrow> filter_doc (flow_cands f) (flow_unit_ref f) None None = []"
  by (auto simp: finalize_chain filter_doc_unit_empty split: list.splits)

lemma finalize_last_step:
  "filter_doc (flow_cands f) (flow_unit_ref f) (flow_lang f) None = [] \<Longrightarrow>
   snd (finalize_and_send f) =
     (case filter_doc (flow_cands f) (flow_unit_ref f) None None of
        [] \<Rightarrow> [NoCompatibleDocument] | d # _ \<Rightarrow> [Document d])"
  by (simp add: finalize_chain filter_doc_drop_variant)

lemma finalize_document_in:
  assumes "snd (finalize_and_send f) = [Document d]"
  shows "d \<in> set (filter_doc (flow_cands f) (flow_unit_ref f) None None)"
proof -
  let ?A = "filter_doc (flow_cands f) (flow_unit_ref f) (flow_lang f) (flow_variant f)"
  let ?B = "filter_doc (flow_cands f) (flow_unit_ref f) (flow_lang f) None"
  let ?C = "filter_doc (flow_cands f) (flow_unit_ref f) None None"
  let ?D = "if ?A \<noteq> [] then ?A else if ?B \<noteq> [] then ?B else ?C"
  have sub: "set ?D \<subseteq> set ?C"
    using filter_doc_mono [of "flow_cands f" "flow_unit_ref f" "flow_lang f" "flow_variant f"]
      filter_doc_mono [of "flow_cands f" "flow_unit_ref f" "flow_lang f" None]
    by simp
  from assms have "(case ?D of [] \<Rightarrow> [NoCompatibleDocument] | d # _ \<Rightarrow> [Document d]) = [Document d]"
    by (simp add: finalize_chain)
  then have "d \<in> set ?D"
    by (cases ?D) simp_all
  with sub show ?thesis by blast
qed

lemma finalize_cases:
  "snd (finalize_and_send f) = [NoCompatibleDocument] \<or> (\<exists>d. snd (finalize_and_send f) = [Document d])"
  by (simp add: finalize_chain split: list.splits)

text \<open>
  Claim C1, as stated: on a session with a non-empty candidate set \<^verbatim>\<open>finalize_and_send\<close>
  never reports that no document was found, because its last fallback applies no filter.
  This fails: the last fallback of the source still filters on the unit reference.  With
  the two units 126 and 130 stored and the unit slot holding 49 (as \<^verbatim>\<open>run_flow\<close> leaves
  it for the query \<open>Pardo P43 #49\<close>), every step is empty and the failure message is sent.
\<close>

theorem finalize_nomatch_nonempty_counterexample:
  "flow_cands \<lparr>flow_query = Some ''Pardo P43 #49'', flow_cands = [p43_126_es, p43_130_es],
       flow_unit_ref = Some ''49'', flow_lang = Some ''es'', flow_variant = Some ''standard'',
       flow_stage = Some StageVariant\<rparr> \<noteq> []
   \<and> finalize_and_send \<lparr>flow_query = Some ''Pardo P43 #49'', flow_cands = [p43_126_es, p43_130_es],
       flow_unit_ref = Some ''49'', flow_lang = Some ''es'', flow_variant = Some ''standard'',
       flow_stage = Some StageVariant\<rparr> = (None, [NoCompatibleDocument])"
  by (simp add: finalize_and_send_def filter_doc_def reset_flow_def p43_126_es_def p43_130_es_def)

text \<open>
  Claim C1, amended: the fallback chain of \<^verbatim>\<open>finalize_and_send\<close> ends with the step that
  filters on the unit reference alone (language and variant dropped; no filter when the
  unit slot is unset or empty).  The failure message is sent exactly when that last step
  is empty; when the steps with the language are empty, the first entry of the last step
  in candidate order is delivered; and on a non-empty candidate set whose unit slot is
  unset or is the unit of some candidate, a document of the candidate set is delivered,
  whatever the language and variant slots hold.
\<close>

theorem finalize_unit_only_last:
  "(snd (finalize_and_send f) = [NoCompatibleDocument]
      \<longleftrightarrow> filter_doc (flow_cands f) (flow_unit_ref f) None None = [])
   \<and> (filter_doc (flow_cands f) (flow_unit_ref f) (flow_lang f) None = [] \<longrightarrow>
        snd (finalize_and_send f) =
          (case filter_doc (flow_cands f) (flow_unit_ref f) None None of
             [] \<Rightarrow> [NoCompatibleDocument] | d # _ \<Rightarrow> [Document d]))
   \<and> (flow_cands f \<noteq> [] \<and>
        (\<not> truthy (flow_unit_ref f) \<or> (\<exists>x \<in> set (flow_cands f). Some (unit_ref x) = flow_unit_ref f))
        \<longrightarrow> (\<exists>d \<in> set (flow_cands f). snd (finalize_and_send f) = [Document d]))"
proof (intro conjI impI)
  show "snd (finalize_and_send f) = [NoCompatibleDocument]
      \<longleftrightarrow> filter_doc (flow_cands f) (flow_unit_ref f) None None = []"
    by (rule finalize_nomatch_iff)
next
  assume "filter_doc (flow_cands f) (flow_unit_ref f) (flow_lang f) None = []"
  then show "snd (finalize_and_send f) =
          (case filter_doc (flow_cands f) (flow_unit_ref f) None None of
             [] \<Rightarrow> [NoCompatibleDocument] | d # _ \<Rightarrow> [Document d])"
    by (rule finalize_last_step)
next
  assume h: "flow_cands f \<noteq> [] \<and>
        (\<not> truthy (flow_unit_ref f) \<or> (\<exists>x \<in> set (flow_cands f). Some (unit_ref x) = flow_unit_ref f))"
  then have ne: "filter_doc (flow_cands f) (flow_unit_ref f) None None \<noteq> []"
    by (auto simp: filter_doc_unit_only filter_empty_conv)
  then have nn: "snd (finalize_and_send f) \<noteq> [NoCompatibleDocument]"
    by (simp add: finalize_nomatch_iff)
  have "\<exists>d. snd (finalize_and_send f) = [Document d]"
    using nn finalize_cases [of f] by blast
  then obtain d where d: "snd (finalize_and_send f) = [Document d]" by blast
  then have "d \<in> set (flow_cands f)"
    using finalize_document_in [OF d] filter_doc_subset by blast
  with d show "\<exists>d \<in> set (flow_cands f). snd (finalize_and_send f) = [Document d]" by blast
qed

text \<open>
  Witness for C1: unit 130 exists only in Spanish, so the steps with the language
  \<open>en\<close> are empty and the last step delivers the first sheet of unit 130.
\<close>

theorem finalize_unit_only_last_witness:
  "filter_doc [p43_126_es, p43_126_en, p43_130_es] (Some ''130'') (Some ''en'') None = []
   \<and> snd (finalize_and_send \<lparr>flow_query = Some ''Pardo P43 #130 en'',
       flow_cands = [p43_126_es, p43_126_en, p43_130_es],
       flow_unit_ref = Some ''130'', flow_lang = Some ''en'', flow_variant = Some ''broker'',
       flow_stage = None\<rparr>) = [Document p43_130_es]"
  using finalize_unit_only_last [of "\<lparr>flow_query = Some ''Pardo P43 #130 en'',
       flow_cands = [p43_126_es, p43_126_en, p43_130_es],
       flow_unit_ref = Some ''130'', flow_lang = Some ''en'', flow_variant = Some ''broker'',
       flow_stage = None\<rparr>"]
  by (simp add: filter_doc_def p43_126_es_def p43_126_en_def p43_130_es_def)

text \<open>
  Claim C10: \<^verbatim>\<open>filter_doc\<close> treats a falsy filter value (\<^verbatim>\<open>None\<close> or the empty string) as
  no constraint.  With three \<^verbatim>\<open>None\<close> arguments, and with three empty strings, it returns
  the candidates unchanged, and a falsy value in any one position gives the result that
  \<^verbatim>\<open>None\<close> gives there, so it excludes no entry.
\<close>

theorem filter_doc_falsy_no_constraint:
  "filter_doc cands None None None = cands
   \<and> filter_doc cands (Some []) (Some []) (Some []) = cands
   \<and> (\<not> truthy u \<longrightarrow> filter_doc cands u l v = filter_doc cands None l v)
   \<and> (\<not> truthy l \<longrightarrow> filter_doc cands u l v = filter_doc cands u None v)
   \<and> (\<not> truthy v \<longrightarrow> filter_doc cands u l v = filter_doc cands u l None)"
  by (simp add: filter_doc_conv)

text \<open>
  Witness for C10: an empty unit reference beside the language \<open>en\<close> keeps the English
  sheet, as no unit filter does.
\<close>

theorem filter_doc_falsy_no_constraint_witness:
  "\<not> truthy (Some []) \<and> \<not> truthy None
   \<and> filter_doc [p43_126_es, p43_126_en] (Some []) (Some ''en'') None
       = filter_doc [p43_126_es, p43_126_en] None (Some ''en'') None
   \<and> filter_doc [p43_126_es, p43_126_en] (Some []) (Some []) (Some []) = [p43_126_es, p43_126_en]"
  using filter_doc_falsy_no_constraint [of "[p43_126_es, p43_126_en]" "Some []" "Some ''en''" None]
    filter_doc_falsy_no_constraint [of "[p43_126_es, p43_126_en]" "Some []" None "Some []"]
  by simp

section \<open>The normalizer\<close>

text \<open>
  Claim C4 says that \<^verbatim>\<open>normalize\<close> trims its result and is idempotent.  The source strips
  the text before it replaces the other characters by spaces, so a query that begins or
  ends with such a character keeps a space at that end, and a second application removes
  it: for \<open>Pardo P43!\<close> the result ends with a space, and normalizing the result
  again gives a different string.
\<close>

theorem normalize_not_idempotent:
  "normalize_str ''Pardo P43!'' = ''pardo p43 ''
   \<and> normalize_str (normalize_str ''Pardo P43!'') = ''pardo p43''
   \<and> normalize_str ''!a'' = '' a''
   \<and> normalize_str (normalize_str ''!a'') = ''a''"
  by code_simp

section \<open>Answers to the questions\<close>

text \<open>
  Claim C2 says that after an answer the slot evaluation goes on until a question is
  asked or the document is delivered.  The handler of a unit answer calls \<^verbatim>\<open>ask_lang\<close>
  only and ignores its result.  The query \<open>Pardo P43 en\<close> fills the language slot and
  asks for the unit; the answer \<open>UNIT:126\<close> then writes the unit and sends the
  confirmation alone: no variant question, no document, and the flow stays stored with the
  stage of the unit question.
\<close>

theorem unit_answer_stops:
  "run_flow prefix_scorer small_catalog None ''Pardo P43 en''
     = (Some \<lparr>flow_query = Some ''Pardo P43 en'', flow_cands = [p43_126_es, p43_126_en, p43_130_es],
               flow_unit_ref = None, flow_lang = Some ''en'', flow_variant = None,
               flow_stage = Some StageUnit\<rparr>,
        [AskUnit [p43_130_es, p43_126_es]])
   \<and> handle_callback
        (Some \<lparr>flow_query = Some ''Pardo P43 en'', flow_cands = [p43_126_es, p43_126_en, p43_130_es],
               flow_unit_ref = None, flow_lang = Some ''en'', flow_variant = None,
               flow_stage = Some StageUnit\<rparr>)
        ''UNIT:126''
     = (Some \<lparr>flow_query = Some ''Pardo P43 en'', flow_cands = [p43_126_es, p43_126_en, p43_130_es],
               flow_unit_ref = Some ''126'', flow_lang = Some ''en'', flow_variant = None,
               flow_stage = Some StageUnit\<rparr>,
        [EditUnit ''126''])"
  by code_simp

lemma after_colon_prefix:
  "after_colon (CB_UNIT @ v) = v" "after_colon (CB_LANG @ v) = v" "after_colon (CB_VAR @ v) = v"
  by (simp_all add: after_colon_def CB_UNIT_def CB_LANG_def CB_VAR_def)

lemma callback_unit:
  "handle_callback ud (CB_UNIT @ v) =
     (let (f, asked, out) = ask_lang ((ensure_flow ud)\<lparr>flow_unit_ref := Some v\<rparr>)
      in (Some f, EditUnit v # out))"
  using after_colon_prefix(1) [of v]
  by (simp add: handle_callback_def startswith_def CB_UNIT_def CB_CANCEL_def)

lemma callback_lang:
  "handle_callback ud (CB_LANG @ v) =
     (let (f, asked, out) = ask_variant ((ensure_flow ud)\<lparr>flow_lang := Some v\<rparr>)
      in (Some f, EditLang v # out))"
  using after_colon_prefix(2) [of v]
  by (simp add: handle_callback_def startswith_def CB_UNIT_def CB_LANG_def CB_CANCEL_def)

lemma callback_var:
  "handle_callback ud (CB_VAR @ v) =
     (let (ud', out) = finalize_and_send ((ensure_flow ud)\<lparr>flow_variant := Some v\<rparr>)
      in (ud', EditVariant v # out))"
  using after_colon_prefix(3) [of v]
  by (simp add: handle_callback_def startswith_def CB_UNIT_def CB_LANG_def CB_VAR_def CB_CANCEL_def)

lemma callback_replies_stage_indep:
  "snd (handle_callback (Some (f\<lparr>flow_stage := st\<rparr>)) d) = snd (handle_callback (Some f) d)"
proof -
  have "finalize_and_send (f\<lparr>flow_stage := st, flow_variant := Some (after_colon d)\<rparr>)
      = finalize_and_send (f\<lparr>flow_variant := Some (after_colon d)\<rparr>)"
    by (simp add: finalize_chain)
  then show ?thesis
    by (simp add: handle_callback_def ensure_flow_def ask_lang_def ask_variant_def Let_def
        split: prod.splits)
qed

text \<open>
  Claim C3, as stated: an answer for a slot that is not awaited is rejected and leaves the
  session unchanged.  This fails: \<^verbatim>\<open>handle_callback\<close> never reads the stage.  A language
  answer that arrives while the unit question is pending writes the language slot, asks
  for the variant and moves the stage.
\<close>

theorem unawaited_answer_counterexample:
  "handle_callback
        (Some \<lparr>flow_query = Some ''Pardo P43'', flow_cands = [p43_126_es, p43_126_en, p43_130_es],
               flow_unit_ref = None, flow_lang = None, flow_variant = None,
               flow_stage = Some StageUnit\<rparr>)
        ''LANG:en''
     = (Some \<lparr>flow_query = Some ''Pardo P43'', flow_cands = [p43_126_es, p43_126_en, p43_130_es],
               flow_unit_ref = None, flow_lang = Some ''en'', flow_variant = None,
               flow_stage = Some StageVariant\<rparr>,
        [EditLang ''en'', AskVariant])"
  by (simp add: handle_callback_def ensure_flow_def CB_CANCEL_def CB_UNIT_def CB_LANG_def
      startswith_def after_colon_def ask_variant_def Let_def)

text \<open>
  Claim C3, amended: an answer event is accepted whatever the stage of the session, and
  also when no session is stored (one is created first); the result of the handler is
  given in full, for every stored session or none.  A unit answer writes the value into
  the unit slot and changes no other slot; when the language slot is unfilled the language
  question is asked after the confirmation and the stage becomes that of the language
  question, otherwise the confirmation is the only message and the stage stays.  A
  language answer does the same with the language slot and the variant question.  A
  variant answer runs the finalizer on the session with the value in the variant slot and
  clears the session.  The messages the handler sends do not depend on the stage.
\<close>

theorem answer_accepted_in_any_stage:
  "handle_callback ud (CB_UNIT @ v) =
     (if truthy (flow_lang (ensure_flow ud))
      then (Some ((ensure_flow ud)\<lparr>flow_unit_ref := Some v\<rparr>), [EditUnit v])
      else (Some ((ensure_flow ud)\<lparr>flow_unit_ref := Some v, flow_stage := Some StageLang\<rparr>),
            [EditUnit v, AskLang]))
   \<and> handle_callback ud (CB_LANG @ v) =
     (if truthy (flow_variant (ensure_flow ud))
      then (Some ((ensure_flow ud)\<lparr>flow_lang := Some v\<rparr>), [EditLang v])
      else (Some ((ensure_flow ud)\<lparr>flow_lang := Some v, flow_stage := Some StageVariant\<rparr>),
            [EditLang v, AskVariant]))
   \<and> handle_callback ud (CB_VAR @ v)
       = (None, EditVariant v # snd (finalize_and_send ((ensure_flow ud)\<lparr>flow_variant := Some v\<rparr>)))
   \<and> snd (handle_callback (Some (f\<lparr>flow_stage := st\<rparr>)) d) = snd (handle_callback (Some f) d)"
proof (intro conjI)
  show "handle_callback ud (CB_UNIT @ v) =
     (if truthy (flow_lang (ensure_flow ud))
      then (Some ((ensure_flow ud)\<lparr>flow_unit_ref := Some v\<rparr>), [EditUnit v])
      else (Some ((ensure_flow ud)\<lparr>flow_unit_ref := Some v, flow_stage := Some StageLang\<rparr>),
            [EditUnit v, AskLang]))"
    by (simp add: callback_unit ask_lang_def)
  show "handle_callback ud (CB_LANG @ v) =
     (if truthy (flow_variant (ensure_flow ud))
      then (Some ((ensure_flow ud)\<lparr>flow_lang := Some v\<rparr>), [EditLang v])
      else (Some ((ensure_flow ud)\<lparr>flow_lang := Some v, flow_stage := Some StageVariant\<rparr>),
            [EditLang v, AskVariant]))"
    by (simp add: callback_lang ask_variant_def)
  show "handle_callback ud (CB_VAR @ v)
       = (None, EditVariant v # snd (finalize_and_send ((ensure_flow ud)\<lparr>flow_variant := Some v\<rparr>)))"
    by (simp add: callback_var finalize_chain)
  show "snd (handle_callback (Some (f\<lparr>flow_stage := st\<rparr>)) d) = snd (handle_callback (Some f) d)"
    by (rule callback_replies_stage_indep)
qed

text \<open>
  Witness for C3: a unit answer that arrives while the variant question is pending, with
  the language slot unfilled, and a language answer that arrives when no session is
  stored.
\<close>

theorem answer_accepted_in_any_stage_witness:
  "handle_callback
        (Some \<lparr>flow_query = Some ''Pardo P43'', flow_cands = [p43_126_es, p43_126_en, p43_130_es],
               flow_unit_ref = None, flow_lang = None, flow_variant = None,
               flow_stage = Some StageVariant\<rparr>)
        ''UNIT:126''
     = (Some \<lparr>flow_query = Some ''Pardo P43'', flow_cands = [p43_126_es, p43_126_en, p43_130_es],
               flow_unit_ref = Some ''126'', flow_lang = None, flow_variant = None,
               flow_stage = Some StageLang\<rparr>,
        [EditUnit ''126'', AskLang])
   \<and> handle_callback None ''LANG:en''
     = (Some \<lparr>flow_query = None, flow_cands = [],
               flow_unit_ref = None, flow_lang = Some ''en'', flow_variant = None,
               flow_stage = Some StageVariant\<rparr>,
        [EditLang ''en'', AskVariant])"
  using answer_accepted_in_any_stage
    [of "Some \<lparr>flow_query = Some ''Pardo P43'', flow_cands = [p43_126_es, p43_126_en, p43_130_es],
               flow_unit_ref = None, flow_lang = None, flow_variant = None,
               flow_stage = Some StageVariant\<rparr>" "''126''"]
    answer_accepted_in_any_stage [of None "''en''"]
  by (simp add: CB_UNIT_def CB_LANG_def ensure_flow_def new_flow_def)

section \<open>Candidate resolution\<close>

text \<open>
  The hit of \<open>extractOne\<close> is an entry of the list of choices with the greatest
  score, and there is no hit only for an empty list.
\<close>

lemma extract_from_Some:
  "extract_from scorer qn i cs best = Some (c, sc, j) \<Longrightarrow>
     best = Some (c, sc, j) \<or> (i \<le> j \<and> j < i + length cs \<and> c = cs ! (j - i) \<and> sc = scorer qn c)"
proof (induction cs arbitrary: i best)
  case Nil
  then show ?case by simp
next
  case (Cons a cs)
  let ?b = "case best of None \<Rightarrow> Some (a, scorer qn a, i)
            | Some (bc, bs, bi) \<Rightarrow> if bs < scorer qn a then Some (a, scorer qn a, i) else Some (bc, bs, bi)"
  from Cons.prems have "extract_from scorer qn (Suc i) cs ?b = Some (c, sc, j)"
    by (simp add: Let_def)
  from Cons.IH [OF this]
  consider "?b = Some (c, sc, j)"
    | "Suc i \<le> j \<and> j < Suc i + length cs \<and> c = cs ! (j - Suc i) \<and> sc = scorer qn c"
    by blast
  then show ?case
  proof cases
    case 1
    then show ?thesis
      by (auto split: option.splits if_splits)
  next
    case 2
    then have "j - i = Suc (j - Suc i)" by arith
    with 2 show ?thesis by auto
  qed
qed

lemma extract_from_None:
  "extract_from scorer qn i cs best = None \<longleftrightarrow> cs = [] \<and> best = None"
  by (induction cs arbitrary: i best) (auto simp: Let_def split: option.splits)

lemma extract_from_max:
  "extract_from scorer qn i cs best = Some (c, sc, j) \<Longrightarrow>
     (\<forall>k \<in> set cs. scorer qn k \<le> sc) \<and> (\<forall>bc bs bi. best = Some (bc, bs, bi) \<longrightarrow> bs \<le> sc)"
proof (induction cs arbitrary: i best)
  case Nil
  then show ?case by simp
next
  case (Cons a cs)
  let ?b = "case best of None \<Rightarrow> Some (a, scorer qn a, i)
            | Some (bc, bs, bi) \<Rightarrow> if bs < scorer qn a then Some (a, scorer qn a, i) else Some (bc, bs, bi)"
  from Cons.prems have "extract_from scorer qn (Suc i) cs ?b = Some (c, sc, j)"
    by (simp add: Let_def)
  from Cons.IH [OF this]
  have ih: "(\<forall>k \<in> set cs. scorer qn k \<le> sc)" "\<And>bc bs bi. ?b = Some (bc, bs, bi) \<Longrightarrow> bs \<le> sc"
    by blast+
  show ?case
  proof (cases best)
    case None
    with ih show ?thesis by auto
  next
    case (Some t)
    obtain bc bs bi where t: "t = (bc, bs, bi)" by (cases t)
    show ?thesis
    proof (cases "bs < scorer qn a")
      case True
      with Some t ih(2) [of a "scorer qn a" i] ih(1) show ?thesis by auto
    next
      case False
      with Some t ih(2) [of bc bs bi] ih(1) show ?thesis by auto
    qed
  qed
qed

lemma extractOne_Some:
  "extractOne scorer qn choices = Some (c, sc, j) \<Longrightarrow>
     j < length choices \<and> c = choices ! j \<and> sc = scorer qn c \<and> (\<forall>k \<in> set choices. scorer qn k \<le> sc)"
  unfolding extractOne_def
  using extract_from_Some [of scorer qn 0 choices None c sc j]
    extract_from_max [of scorer qn 0 choices None c sc j]
  by auto

lemma extractOne_None: "extractOne scorer qn choices = None \<longleftrightarrow> choices = []"
  by (simp add: extractOne_def extract_from_None)

lemma choice_pairs_items: "snd ` set (choice_pairs catalog) \<subseteq> set catalog"
  by (auto simp: choice_pairs_def)

lemma best_model_match_in_catalog:
  assumes "best_model_match scorer catalog q = (Some b, s)"
  shows "b \<in> set catalog"
proof -
  let ?ps = "choice_pairs catalog"
  from assms obtain c i where e: "extractOne scorer (normalize_str q) (map fst ?ps) = Some (c, s, i)"
    and b: "b = map snd ?ps ! i"
    by (auto simp: best_model_match_def Let_def split: option.splits)
  from extractOne_Some [OF e] have "i < length ?ps" by simp
  then have "map snd ?ps ! i \<in> snd ` set ?ps"
    by (metis length_map nth_mem set_map)
  with b choice_pairs_items show ?thesis by blast
qed

lemma best_model_match_None:
  "fst (best_model_match scorer catalog q) = None \<longleftrightarrow> choice_pairs catalog = []"
proof -
  let ?e = "extractOne scorer (normalize_str q) (map fst (choice_pairs catalog))"
  have iff: "?e = None \<longleftrightarrow> choice_pairs catalog = []"
    by (simp add: extractOne_None)
  have "fst (best_model_match scorer catalog q) = None \<longleftrightarrow> ?e = None"
    by (cases ?e) (auto simp: best_model_match_def Let_def)
  with iff show ?thesis by simp
qed

lemma best_model_match_None_score:
  "fst (best_model_match scorer catalog q) = None \<Longrightarrow> snd (best_model_match scorer catalog q) = 0"
  by (auto simp: best_model_match_def Let_def split: option.splits)

lemma candidates_rejected:
  assumes "fst (best_model_match scorer catalog q) = None \<or> snd (best_model_match scorer catalog q) < 70"
  shows "candidates_for_query scorer catalog q = ([], snd (best_model_match scorer catalog q))"
proof (cases "best_model_match scorer catalog q")
  case (Pair bo s)
  with assms show ?thesis
    by (cases bo) (simp_all add: candidates_for_query_def Let_def)
qed

lemma candidates_accepted:
  assumes m: "best_model_match scorer catalog q = (Some b, s)" and s: "70 \<le> s"
  shows "candidates_for_query scorer catalog q =
     (let cands = filter (\<lambda>x. brand x = brand b \<and> model x = model b) catalog;
          filtered = filter (\<lambda>x. Some (unit_ref x) = detect_unit_ref q) cands
      in if truthy (detect_unit_ref q) \<and> filtered \<noteq> [] then (filtered, s) else (cands, s))"
  using m s by (simp add: candidates_for_query_def Let_def)

text \<open>
  Claim C5: when the matcher has no hit (which happens only for a catalog without keys)
  or the best score is below 70, \<^verbatim>\<open>candidates_for_query\<close> returns no candidate and that
  score; when the best score is at least 70 it returns that score and a non-empty list of
  candidates, each with the brand and the model of the best match.
\<close>

theorem candidates_threshold:
  "(fst (best_model_match scorer catalog q) = None \<longleftrightarrow> choice_pairs catalog = [])
   \<and> (fst (best_model_match scorer catalog q) = None \<or> snd (best_model_match scorer catalog q) < 70
        \<longrightarrow> candidates_for_query scorer catalog q = ([], snd (best_model_match scorer catalog q)))
   \<and> (best_model_match scorer catalog q = (Some b, s) \<and> 70 \<le> s
        \<longrightarrow> fst (candidates_for_query scorer catalog q) \<noteq> []
            \<and> snd (candidates_for_query scorer catalog q) = s
            \<and> (\<forall>x \<in> set (fst (candidates_for_query scorer catalog q)).
                  brand x = brand b \<and> model x = model b))"
proof (intro conjI impI)
  show "fst (best_model_match scorer catalog q) = None \<longleftrightarrow> choice_pairs catalog = []"
    by (rule best_model_match_None)
next
  assume "fst (best_model_match scorer catalog q) = None \<or> snd (best_model_match scorer catalog q) < 70"
  then show "candidates_for_query scorer catalog q = ([], snd (best_model_match scorer catalog q))"
    by (rule candidates_rejected)
next
  assume h: "best_model_match scorer catalog q = (Some b, s) \<and> 70 \<le> s"
  then have m: "best_model_match scorer catalog q = (Some b, s)" and s: "70 \<le> s" by simp_all
  let ?cands = "filter (\<lambda>x. brand x = brand b \<and> model x = model b) catalog"
  have ne: "?cands \<noteq> []"
    using best_model_match_in_catalog [OF m] by (auto simp: filter_empty_conv)
  note eq = candidates_accepted [OF m s]
  from ne show "fst (candidates_for_query scorer catalog q) \<noteq> []"
    by (simp add: eq Let_def)
  show "snd (candidates_for_query scorer catalog q) = s"
    by (simp add: eq Let_def)
  show "\<forall>x \<in> set (fst (candidates_for_query scorer catalog q)). brand x = brand b \<and> model x = model b"
    by (auto simp: eq Let_def)
qed

lemma match_tail_nonempty: "match_tail s = Some ds \<Longrightarrow> ds \<noteq> []"
  by (auto simp: match_tail_def Let_def split: if_splits)

lemma match_alts_nonempty: "match_alts as s = Some ds \<Longrightarrow> ds \<noteq> []"
  by (induction as) (auto split: if_splits option.splits dest: match_tail_nonempty)

lemma regex_search_nonempty: "regex_search s = Some ds \<Longrightarrow> ds \<noteq> []"
  by (induction s) (auto simp: match_at_def split: option.splits dest: match_alts_nonempty)

lemma detect_unit_ref_truthy: "detect_unit_ref q = Some u \<Longrightarrow> truthy (Some u)"
  by (simp add: detect_unit_ref_def regex_search_nonempty)

text \<open>
  Claim C7: for an accepted match and a query in which \<^verbatim>\<open>detect_unit_ref\<close> finds the
  reference \<open>u\<close>, \<^verbatim>\<open>candidates_for_query\<close> returns the entries of the family with unit
  \<open>u\<close> when there are any, and the whole family otherwise; no error value exists.
\<close>

theorem unit_narrowing_widens:
  assumes "best_model_match scorer catalog q = (Some b, s)" and "70 \<le> s"
    and "detect_unit_ref q = Some u"
  shows "candidates_for_query scorer catalog q =
     (if filter (\<lambda>x. unit_ref x = u) (filter (\<lambda>x. brand x = brand b \<and> model x = model b) catalog) = []
      then filter (\<lambda>x. brand x = brand b \<and> model x = model b) catalog
      else filter (\<lambda>x. unit_ref x = u) (filter (\<lambda>x. brand x = brand b \<and> model x = model b) catalog),
      s)"
  using detect_unit_ref_truthy [OF assms(3)] assms(3)
  by (simp add: candidates_accepted [OF assms(1,2)] Let_def)

text \<open>The matcher on the small catalog.\<close>

lemma small_best: "best_model_match prefix_scorer small_catalog ''Pardo P43 #49'' = (Some p43_126_es, 100)"
  by code_simp

lemma small_best2: "best_model_match prefix_scorer small_catalog ''Pardo P43 #130'' = (Some p43_126_es, 100)"
  by code_simp

lemma small_unit: "detect_unit_ref ''Pardo P43 #49'' = Some ''49''"
  by code_simp
  
lemma small_unit2: "detect_unit_ref ''Pardo P43 #130'' = Some ''130''"
  by code_simp

text \<open>
  Witness for C7: unit 49 is no unit of the Pardo P43, so the whole family comes back;
  unit 130 narrows it to one sheet.
\<close>

theorem unit_narrowing_widens_witness:
  "candidates_for_query prefix_scorer small_catalog ''Pardo P43 #49''
     = ([p43_126_es, p43_126_en, p43_130_es], 100)
   \<and> candidates_for_query prefix_scorer small_catalog ''Pardo P43 #130'' = ([p43_130_es], 100)"
  using unit_narrowing_widens [OF small_best _ small_unit] unit_narrowing_widens [OF small_best2 _ small_unit2]
  by (simp add: small_catalog_def p43_126_es_def p43_126_en_def p43_130_es_def so455_49_es_def)

lemma small_best3: "best_model_match prefix_scorer small_catalog ''p50'' = (Some p43_126_es, 40)"
  by code_simp

text \<open>
  Witness for C5: the query \<open>p50\<close> scores 40 and is rejected with its score; the query
  \<open>Pardo P43 #49\<close> scores 100 and gives the family of the Pardo P43.
\<close>

theorem candidates_threshold_witness:
  "candidates_for_query prefix_scorer small_catalog ''p50'' = ([], 40)
   \<and> fst (candidates_for_query prefix_scorer small_catalog ''Pardo P43 #49'') \<noteq> []
   \<and> snd (candidates_for_query prefix_scorer small_catalog ''Pardo P43 #49'') = 100
   \<and> map brand (fst (candidates_for_query prefix_scorer small_catalog ''Pardo P43 #49''))
       = [''Pardo'', ''Pardo'', ''Pardo'']
   \<and> map model (fst (candidates_for_query prefix_scorer small_catalog ''Pardo P43 #49''))
       = [''P43'', ''P43'', ''P43'']"
proof -
  have r: "candidates_for_query prefix_scorer small_catalog ''p50'' = ([], 40)"
    using candidates_threshold [of prefix_scorer small_catalog "''p50''" p43_126_es 40]
    by (simp add: small_best3)
  have a: "fst (candidates_for_query prefix_scorer small_catalog ''Pardo P43 #49'') \<noteq> []
      \<and> snd (candidates_for_query prefix_scorer small_catalog ''Pardo P43 #49'') = 100"
    using candidates_threshold [of prefix_scorer small_catalog "''Pardo P43 #49''" p43_126_es 100]
    by (simp add: small_best)
  have c: "candidates_for_query prefix_scorer small_catalog ''Pardo P43 #49''
      = ([p43_126_es, p43_126_en, p43_130_es], 100)"
    by code_simp
  have m: "map brand (fst (candidates_for_query prefix_scorer small_catalog ''Pardo P43 #49''))
       = [''Pardo'', ''Pardo'', ''Pardo'']
     \<and> map model (fst (candidates_for_query prefix_scorer small_catalog ''Pardo P43 #49''))
       = [''P43'', ''P43'', ''P43'']"
    by (simp add: c p43_126_es_def p43_126_en_def p43_130_es_def)
  from r a m show ?thesis
    by blast
qed

section \<open>The units of a candidate list\<close>

text \<open>
  The dictionary built by the loop of \<^verbatim>\<open>unique_units\<close> has one key per unit reference
  of the candidates, and each key is bound to the first candidate with that reference.
\<close>

lemma map_of_setdefault:
  "map_of (setdefault units k v) k' =
     (case map_of units k' of Some w \<Rightarrow> Some w | None \<Rightarrow> if k' = k then Some v else None)"
  by (auto simp: setdefault_def map_of_append map_add_def split: option.splits)

lemma keys_setdefault:
  "map fst (setdefault units k v) = (if k \<in> set (map fst units) then map fst units else map fst units @ [k])"
  by (auto simp: setdefault_def map_of_eq_None_iff)

lemma foldl_setdefault_keys:
  "distinct (map fst acc) \<Longrightarrow>
   distinct (map fst (foldl (\<lambda>units x. setdefault units (unit_ref x) x) acc cands))
   \<and> set (map fst (foldl (\<lambda>units x. setdefault units (unit_ref x) x) acc cands))
       = set (map fst acc) \<union> set (map unit_ref cands)"
proof (induction cands arbitrary: acc)
  case Nil
  then show ?case by simp
next
  case (Cons x xs)
  from Cons.prems have d: "distinct (map fst (setdefault acc (unit_ref x) x))"
    by (simp add: keys_setdefault)
  from Cons.IH [OF d] show ?case
    by (auto simp: keys_setdefault split: if_splits)
qed

lemma foldl_setdefault_lookup:
  "map_of (foldl (\<lambda>units x. setdefault units (unit_ref x) x) acc cands) k =
     (case map_of acc k of Some w \<Rightarrow> Some w | None \<Rightarrow> find (\<lambda>x. unit_ref x = k) cands)"
proof (induction cands arbitrary: acc)
  case Nil
  then show ?case by (simp split: option.splits)
next
  case (Cons x xs)
  show ?case
    by (simp add: Cons.IH map_of_setdefault split: option.splits)
qed

lemma units_dict_keys:
  "distinct (map fst (units_dict cands))" "set (map fst (units_dict cands)) = set (map unit_ref cands)"
  using foldl_setdefault_keys [of "[]" cands] by (simp_all add: units_dict_def)

lemma units_dict_map_of:
  "map_of (units_dict cands) k = find (\<lambda>x. unit_ref x = k) cands"
  using foldl_setdefault_lookup [of "[]" cands k] by (simp add: units_dict_def)

lemma units_dict_lookup:
  assumes "k \<in> set (map fst (units_dict cands))"
  shows "\<exists>v. map_of (units_dict cands) k = Some v \<and> unit_ref v = k
            \<and> find (\<lambda>x. unit_ref x = k) cands = Some v"
proof -
  from assms have "k \<in> set (map unit_ref cands)"
    using units_dict_keys(2) [of cands] by simp
  then have "find (\<lambda>x. unit_ref x = k) cands \<noteq> None"
    by (auto simp: find_None_iff)
  then obtain v where v: "find (\<lambda>x. unit_ref x = k) cands = Some v" by blast
  then have "unit_ref v = k" by (auto simp: find_Some_iff)
  with v show ?thesis by (simp add: units_dict_map_of)
qed

lemma unique_units_alt:
  "unique_units cands = map (\<lambda>k. the (map_of (units_dict cands) k)) (sorted_keys cands)"
  by (simp add: unique_units_def sorted_keys_def Let_def)

lemma sorted_keys_set: "set (sorted_keys cands) = set (map fst (units_dict cands))"
  by (simp add: sorted_keys_def)

lemma sorted_keys_distinct: "distinct (sorted_keys cands)"
  by (simp add: sorted_keys_def units_dict_keys(1))

lemma unique_units_refs: "map unit_ref (unique_units cands) = sorted_keys cands"
proof -
  have "\<And>k. k \<in> set (sorted_keys cands) \<Longrightarrow> unit_ref (the (map_of (units_dict cands) k)) = k"
    using units_dict_lookup [of _ cands] by (fastforce simp: sorted_keys_set)
  then show ?thesis
    by (simp add: unique_units_alt map_idI)
qed

lemma unique_units_sorted: "sorted (map unit_rank (unique_units cands))"
proof -
  have "map unit_rank (unique_units cands)
      = map (\<lambda>ur. unit_rank (the (map_of (units_dict cands) ur))) (sorted_keys cands)"
    by (simp add: unique_units_alt)
  then show ?thesis
    by (simp add: sorted_keys_def)
qed

lemma unique_units_first_seen:
  assumes "u \<in> set (unique_units cands)"
  shows "find (\<lambda>x. unit_ref x = unit_ref u) cands = Some u"
proof -
  from assms obtain k where k: "k \<in> set (sorted_keys cands)" and u: "u = the (map_of (units_dict cands) k)"
    by (auto simp: unique_units_alt)
  from k units_dict_lookup [of k cands] obtain v where
    "map_of (units_dict cands) k = Some v" "unit_ref v = k" "find (\<lambda>x. unit_ref x = k) cands = Some v"
    by (auto simp: sorted_keys_set)
  with u show ?thesis by simp
qed

text \<open>
  The order of the sort keys, written out: the rank of the availability first, then the
  delivery string, then the unit reference, both in lexicographic order.
\<close>

lemma unit_rank_le:
  "unit_rank a \<le> unit_rank b \<longleftrightarrow>
     (availability a = ''in_stock'' \<and> availability b \<noteq> ''in_stock'')
     \<or> ((availability a = ''in_stock'') = (availability b = ''in_stock'')
         \<and> (delivery a < delivery b \<or> delivery a = delivery b \<and> unit_ref a \<le> unit_ref b))"
  by (auto simp: unit_rank_def less_eq_prod_def)

lemma unique_units_in_stock_first:
  assumes "i < j" "j < length (unique_units cands)"
    and "availability (unique_units cands ! j) = ''in_stock''"
  shows "availability (unique_units cands ! i) = ''in_stock''"
proof -
  let ?us = "unique_units cands"
  have "map unit_rank ?us ! i \<le> map unit_rank ?us ! j"
    using unique_units_sorted [of cands] assms(1,2)
    by (simp add: sorted_iff_nth_mono del: nth_map)
  then have "unit_rank (?us ! i) \<le> unit_rank (?us ! j)"
    using assms(1,2) by simp
  with assms(3) show ?thesis
    by (auto simp: unit_rank_le)
qed

text \<open>
  Claim C6: \<^verbatim>\<open>unique_units\<close> returns one entry per unit reference of the candidates, the
  first candidate with that reference, and orders the entries by the composite key
  \<open>unit_rank\<close>.  The order is stated over the fields of the entries: of two entries of the
  result, the earlier one is in stock and the later one is not; or both are in stock or
  neither is, and the earlier one has the smaller delivery string, or the same delivery
  string and the smaller unit reference (strings compared character by character on the
  character codes, a proper prefix first, as Python compares \<^verbatim>\<open>str\<close> values).  So no two
  entries of the result share a unit reference, and an entry in stock is never preceded
  by one that is not.
\<close>

theorem unique_units_dedup_sorted:
  "distinct (map unit_ref (unique_units cands))
   \<and> set (map unit_ref (unique_units cands)) = set (map unit_ref cands)
   \<and> (\<forall>u \<in> set (unique_units cands). find (\<lambda>x. unit_ref x = unit_ref u) cands = Some u)
   \<and> sorted (map unit_rank (unique_units cands))
   \<and> (\<forall>i j. i < j \<and> j < length (unique_units cands) \<longrightarrow>
          (availability (unique_units cands ! i) = ''in_stock''
             \<and> availability (unique_units cands ! j) \<noteq> ''in_stock'')
          \<or> ((availability (unique_units cands ! i) = ''in_stock'')
                = (availability (unique_units cands ! j) = ''in_stock'')
              \<and> (delivery (unique_units cands ! i) < delivery (unique_units cands ! j)
                  \<or> (delivery (unique_units cands ! i) = delivery (unique_units cands ! j)
                      \<and> unit_ref (unique_units cands ! i) < unit_ref (unique_units cands ! j)))))
   \<and> (\<forall>i j. i < j \<and> j < length (unique_units cands)
          \<and> availability (unique_units cands ! j) = ''in_stock''
        \<longrightarrow> availability (unique_units cands ! i) = ''in_stock'')"
proof (intro conjI ballI allI impI)
  show "distinct (map unit_ref (unique_units cands))"
    by (simp add: unique_units_refs sorted_keys_distinct)
  show "set (map unit_ref (unique_units cands)) = set (map unit_ref cands)"
    by (simp only: unique_units_refs sorted_keys_set units_dict_keys(2))
  show "sorted (map unit_rank (unique_units cands))"
    by (rule unique_units_sorted)
next
  fix u assume "u \<in> set (unique_units cands)"
  then show "find (\<lambda>x. unit_ref x = unit_ref u) cands = Some u"
    by (rule unique_units_first_seen)
next
  fix i j
  assume "i < j \<and> j < length (unique_units cands)
          \<and> availability (unique_units cands ! j) = ''in_stock''"
  then show "availability (unique_units cands ! i) = ''in_stock''"
    using unique_units_in_stock_first by blast
next
  fix i j
  let ?us = "unique_units cands"
  assume ij: "i < j \<and> j < length ?us"
  have "map unit_rank ?us ! i \<le> map unit_rank ?us ! j"
    using unique_units_sorted [of cands] ij
    by (simp add: sorted_iff_nth_mono del: nth_map)
  then have le: "unit_rank (?us ! i) \<le> unit_rank (?us ! j)"
    using ij by simp
  have "distinct (map unit_ref ?us)"
    by (simp add: unique_units_refs sorted_keys_distinct)
  then have "map unit_ref ?us ! i \<noteq> map unit_ref ?us ! j"
    using ij by (simp add: nth_eq_iff_index_eq del: nth_map)
  then have ne: "unit_ref (?us ! i) \<noteq> unit_ref (?us ! j)"
    using ij by simp
  from le ne show "(availability (?us ! i) = ''in_stock'' \<and> availability (?us ! j) \<noteq> ''in_stock'')
          \<or> ((availability (?us ! i) = ''in_stock'') = (availability (?us ! j) = ''in_stock'')
              \<and> (delivery (?us ! i) < delivery (?us ! j)
                  \<or> (delivery (?us ! i) = delivery (?us ! j)
                      \<and> unit_ref (?us ! i) < unit_ref (?us ! j))))"
    unfolding unit_rank_le by (auto simp: less_le)
qed

text \<open>The units of the small catalog.\<close>

lemma small_units: "unique_units small_catalog = [p43_130_es, so455_49_es, p43_126_es]"
  by code_simp

text \<open>
  The units of the five sheets \<open>so455_units\<close>: every unit changes its place.  Unit 48,
  the only one whose first sheet is in stock, moves from the end to the front although
  its delivery is the latest; unit 35 moves before units 20 and 21 on its delivery; units
  20 and 21 have one delivery and swap on the unit reference; and unit 21 is represented
  by its first sheet, which is on order, so the later sheet in stock does not move it.
\<close>

lemma so455_units_value:
  "unique_units so455_units = [unit_row ''48'' ''in_stock'' ''2027-01'',
     unit_row ''35'' ''on_order'' ''2026-03'', unit_row ''20'' ''on_order'' ''2026-09'',
     unit_row ''21'' ''on_order'' ''2026-09'']"
  by code_simp

text \<open>
  Witness for C6: on \<open>so455_units\<close> the order of the result is the one the theorem gives
  for the positions 1, 2 (delivery) and 2, 3 (equal delivery, unit reference).
\<close>

theorem unique_units_dedup_sorted_witness:
  "unique_units so455_units = [unit_row ''48'' ''in_stock'' ''2027-01'',
     unit_row ''35'' ''on_order'' ''2026-03'', unit_row ''20'' ''on_order'' ''2026-09'',
     unit_row ''21'' ''on_order'' ''2026-09'']
   \<and> availability (unique_units so455_units ! 0) = ''in_stock''
   \<and> availability (unique_units so455_units ! 1) \<noteq> ''in_stock''
   \<and> delivery (unique_units so455_units ! 1) < delivery (unique_units so455_units ! 2)
   \<and> delivery (unique_units so455_units ! 2) = delivery (unique_units so455_units ! 3)
   \<and> unit_ref (unique_units so455_units ! 2) < unit_ref (unique_units so455_units ! 3)"
proof -
  let ?us = "unique_units so455_units"
  note t = unique_units_dedup_sorted [of so455_units]
  have len: "length ?us = 4"
    by (simp add: so455_units_value)
  have a: "availability (?us ! 0) = ''in_stock''" "availability (?us ! 1) \<noteq> ''in_stock''"
    "availability (?us ! 2) \<noteq> ''in_stock''" "availability (?us ! 3) \<noteq> ''in_stock''"
    "delivery (?us ! 1) \<noteq> delivery (?us ! 2)" "delivery (?us ! 2) = delivery (?us ! 3)"
    by (simp_all add: so455_units_value unit_row_def)
  from t have o: "\<And>i j. i < j \<Longrightarrow> j < length ?us \<Longrightarrow>
          (availability (?us ! i) = ''in_stock'' \<and> availability (?us ! j) \<noteq> ''in_stock'')
          \<or> ((availability (?us ! i) = ''in_stock'') = (availability (?us ! j) = ''in_stock'')
              \<and> (delivery (?us ! i) < delivery (?us ! j)
                  \<or> (delivery (?us ! i) = delivery (?us ! j)
                      \<and> unit_ref (?us ! i) < unit_ref (?us ! j))))"
    by blast
  have d: "delivery (?us ! 1) < delivery (?us ! 2)"
    using o [of 1 2] a len by auto
  have u: "unit_ref (?us ! 2) < unit_ref (?us ! 3)"
    using o [of 2 3] a len by auto
  from so455_units_value a d u show ?thesis by blast
qed

section \<open>The unit reference in a query\<close>

text \<open>
  A marker of group 1 in any letter case, then whitespace, then a run of more than five
  digits: the match at the start of such a text takes the first five digits.
\<close>

lemma digit_not_space: "is_digit c \<Longrightarrow> \<not> is_space c"
  by (auto simp: is_digit_def is_space_def Let_def)

lemma lower_char_plain: "\<not> is_upper c \<Longrightarrow> lower_char c = c"
  by (simp add: lower_char_def)

lemma digit_not_upper: "is_digit c \<Longrightarrow> \<not> is_upper c"
  by (auto simp: is_digit_def is_upper_def Let_def)

lemma space_not_upper: "is_space c \<Longrightarrow> \<not> is_upper c"
  by (auto simp: is_space_def is_upper_def Let_def)

lemma dot_class: "\<not> is_digit CHR ''.''" "\<not> is_space CHR ''.''"
  by (simp_all add: is_digit_def is_space_def)

lemma match_tail_run:
  assumes ws: "\<forall>c \<in> set ws. is_space c" and ds: "\<forall>c \<in> set ds. is_digit c" and len: "5 < length ds"
  shows "match_tail (ws @ ds @ rest) = Some (take 5 ds)"
proof -
  from len obtain d ds' where dd: "ds = d # ds'" by (cases ds) auto
  with ds have "\<not> is_space d" by (simp add: digit_not_space)
  with ws dd have drop: "dropWhile is_space (ws @ ds @ rest) = ds @ rest"
    by (simp add: dropWhile_append2)
  from len have tk: "take 5 (ds @ rest) = take 5 ds" by simp
  from ds have "\<forall>c \<in> set (take 5 ds). is_digit c"
    by (meson in_set_takeD)
  then have tw: "takeWhile is_digit (take 5 ds) = take 5 ds"
    by (simp add: takeWhile_eq_all_conv)
  from len have "take 5 ds \<noteq> []" by auto
  with drop tk tw show ?thesis
    by (simp only: match_tail_def Let_def if_False)
qed

lemma istartswith_append:
  "istartswith p (m @ t) \<longleftrightarrow>
     (if length p \<le> length m then take (length p) (lower m) = p
      else lower m = take (length m) p \<and> istartswith (drop (length m) p) t)"
proof (cases "length p \<le> length m")
  case True
  then show ?thesis
    by (simp add: istartswith_def lower_def take_map)
next
  case False
  then have lp: "length m < length p" by simp
  have "lower (take (length p) (m @ t)) = p \<longleftrightarrow>
      lower m @ lower (take (length p - length m) t) = take (length m) p @ drop (length m) p"
    using lp by (simp add: lower_def)
  also have "\<dots> \<longleftrightarrow> lower m = take (length m) p \<and> lower (take (length p - length m) t) = drop (length m) p"
    using lp by (subst append_eq_append_conv) (simp_all add: lower_def)
  finally show ?thesis
    using lp by (auto simp: istartswith_def)
qed

lemma not_istartswith_dot:
  assumes ws: "\<forall>c \<in> set ws. is_space c" and ds: "\<forall>c \<in> set ds. is_digit c" and ne: "ds \<noteq> []"
  shows "\<not> istartswith ''.'' (ws @ ds @ rest)"
proof
  assume a: "istartswith ''.'' (ws @ ds @ rest)"
  let ?t = "ws @ ds @ rest"
  from ne have tne: "?t \<noteq> []" by simp
  then obtain c cs where t: "?t = c # cs" by (cases ?t) auto
  with a have lc: "lower_char c = CHR ''.''"
    by (simp add: istartswith_def lower_def)
  have "c \<in> set ws \<or> c \<in> set ds"
  proof (cases ws)
    case Nil
    with t ne show ?thesis by (cases ds) auto
  next
    case (Cons w ws')
    with t show ?thesis by auto
  qed
  then have cls: "is_space c \<or> is_digit c" using ws ds by blast
  then have "\<not> is_upper c" using space_not_upper digit_not_upper by blast
  with lc have "c = CHR ''.''" by (simp add: lower_char_plain)
  with cls dot_class show False by blast
qed

lemma length_lower: "lower m = a \<Longrightarrow> length m = length a"
  by (auto simp: lower_def)

lemma match_at_marker:
  assumes m: "lower m \<in> set group1_alts"
    and ws: "\<forall>c \<in> set ws. is_space c" and ds: "\<forall>c \<in> set ds. is_digit c" and len: "5 < length ds"
  shows "match_at (m @ ws @ ds @ rest) = Some (take 5 ds)"
proof -
  note mt = match_tail_run [OF ws ds len, of rest]
  from len have ne: "ds \<noteq> []" by auto
  note nd = not_istartswith_dot [OF ws ds ne, of rest]
  from m consider "lower m = ''#''" | "lower m = ''unit''" | "lower m = ''unidad''"
    | "lower m = ''ordine''" | "lower m = ''order''" | "lower m = ''n.''" | "lower m = ''n''"
    by (auto simp: group1_alts_def)
  then show ?thesis
  proof cases
    case 1
    with length_lower [OF 1] mt show ?thesis
      by (simp add: match_at_def group1_alts_def istartswith_append)
  next
    case 2
    with length_lower [OF 2] mt show ?thesis
      by (simp add: match_at_def group1_alts_def istartswith_append)
  next
    case 3
    with length_lower [OF 3] mt show ?thesis
      by (simp add: match_at_def group1_alts_def istartswith_append)
  next
    case 4
    with length_lower [OF 4] mt show ?thesis
      by (simp add: match_at_def group1_alts_def istartswith_append)
  next
    case 5
    with length_lower [OF 5] mt show ?thesis
      by (simp add: match_at_def group1_alts_def istartswith_append)
  next
    case 6
    with length_lower [OF 6] mt show ?thesis
      by (simp add: match_at_def group1_alts_def istartswith_append)
  next
    case 7
    with length_lower [OF 7] mt nd show ?thesis
      by (simp add: match_at_def group1_alts_def istartswith_append)
  qed
qed

text \<open>The search returns the match at the first position that has one.\<close>

lemma regex_search_here: "match_at s = Some d \<Longrightarrow> regex_search s = Some d"
  by (cases s) simp_all

lemma regex_search_skip:
  "\<forall>i < length pre. match_at (drop i (pre @ s)) = None \<Longrightarrow> regex_search (pre @ s) = regex_search s"
proof (induction pre)
  case Nil
  then show ?case by simp
next
  case (Cons c cs)
  from Cons.prems have h0: "match_at (c # cs @ s) = None"
    by (metis append_Cons drop0 length_greater_0_conv list.distinct(1))
  have "\<forall>i < length cs. match_at (drop i (cs @ s)) = None"
  proof (intro allI impI)
    fix i assume "i < length cs"
    then have "Suc i < length (c # cs)" by simp
    from Cons.prems [rule_format, OF this] show "match_at (drop i (cs @ s)) = None" by simp
  qed
  from Cons.IH [OF this] h0 show ?case by simp
qed

text \<open>
  Claim C9, amended: when an ASCII query holds a marker, optional whitespace and a run of
  more than five digits, and no match of the pattern begins before that marker, then
  \<^verbatim>\<open>detect_unit_ref\<close> returns exactly the first five digits of the run; the longer run is
  not rejected, since nothing has to follow the digit group.  The query is taken in the
  ASCII range, where the character classes of the pattern are the ones of the source.
\<close>

theorem detect_unit_ref_first_five:
  assumes "\<forall>c \<in> set (pre @ m @ ws @ ds @ rest). is_ascii c"
    and "lower m \<in> set group1_alts"
    and "\<forall>c \<in> set ws. is_space c" and "\<forall>c \<in> set ds. is_digit c" and "5 < length ds"
    and "\<forall>i < length pre. match_at (drop i (pre @ m @ ws @ ds @ rest)) = None"
  shows "detect_unit_ref (pre @ m @ ws @ ds @ rest) = Some (take 5 ds)"
  using regex_search_skip [OF assms(6)] regex_search_here [OF match_at_marker [OF assms(2-5)]]
  by (simp add: detect_unit_ref_def)

text \<open>
  Claim C9, as stated, speaks of every query that contains a marker followed by more than
  five digits.  The search returns the first match of the query, so an earlier reference
  wins: \<open>#1 #123456\<close> contains the marker \<open>#\<close> followed by six digits, and the result
  is \<open>1\<close>, not \<open>12345\<close>.
\<close>

theorem detect_unit_ref_earlier_match_counterexample:
  "detect_unit_ref ''#1 #123456'' = Some ''1'' \<and> detect_unit_ref ''#1 #123456'' \<noteq> Some ''12345''"
  by code_simp

text \<open>No match begins in the first six characters of \<open>SO455 Unit 123456 en\<close>.\<close>

lemma so455_positions:
  "match_at ''SO455 Unit 123456 en'' = None \<and> match_at ''O455 Unit 123456 en'' = None
   \<and> match_at ''455 Unit 123456 en'' = None \<and> match_at ''55 Unit 123456 en'' = None
   \<and> match_at ''5 Unit 123456 en'' = None \<and> match_at '' Unit 123456 en'' = None"
  by code_simp

lemma so455_no_earlier_match:
  "\<forall>i < length ''SO455 ''. match_at (drop i (''SO455 '' @ ''Unit'' @ '' '' @ ''123456'' @ '' en'')) = None"
  using so455_positions by (simp add: All_less_Suc2)

lemma hash_parts:
  "lower ''#'' \<in> set group1_alts" "\<forall>c \<in> set []. is_space c"
  by code_simp+

lemma so455_parts:
  "lower ''Unit'' \<in> set group1_alts" "\<forall>c \<in> set '' ''. is_space c" "\<forall>c \<in> set ''123456''. is_digit c"
  by code_simp+

lemma so455_ascii:
  "\<forall>c \<in> set (''SO455 '' @ ''Unit'' @ '' '' @ ''123456'' @ '' en''). is_ascii c"
  "\<forall>c \<in> set ([] @ ''#'' @ [] @ ''123456'' @ []). is_ascii c"
  by code_simp+

text \<open>
  Witness for C9: the marker \<open>Unit\<close> after the prefix \<open>SO455\<close>, and the example of the
  claim, \<open>#123456\<close>, with an empty prefix; both queries are ASCII.
\<close>

theorem detect_unit_ref_first_five_witness:
  "detect_unit_ref ''SO455 Unit 123456 en'' = Some ''12345''
   \<and> detect_unit_ref ''#123456'' = Some ''12345''"
  using detect_unit_ref_first_five [OF so455_ascii(1) so455_parts _ so455_no_earlier_match]
    detect_unit_ref_first_five [OF so455_ascii(2) hash_parts(1) hash_parts(2) so455_parts(3)]
  by simp

section \<open>A new query on a stored session\<close>

lemma truthy_py_or: "truthy (py_or a b) \<longleftrightarrow> truthy a \<or> truthy b"
  by (simp add: py_or_def)

lemma finalize_no_question:
  "AskLang \<notin> set (snd (finalize_and_send f))" "AskVariant \<notin> set (snd (finalize_and_send f))"
  "AskUnit us \<notin> set (snd (finalize_and_send f))"
  using finalize_cases [of f] by auto

text \<open>
  The four exits of \<^verbatim>\<open>run_flow\<close> once the candidates are stored: the unit question, the
  language question, the variant question, or the finalizer.
\<close>

lemma run_flow_exits:
  assumes c: "candidates_for_query scorer catalog q = (cs, sc)" and ne: "cs \<noteq> []"
  shows "run_flow scorer catalog ud q =
     (if \<not> truthy (flow_unit_ref (prefilled ud q cs)) \<and> 1 < length (unique_units cs)
      then (Some ((prefilled ud q cs)\<lparr>flow_stage := Some StageUnit\<rparr>),
            [AskUnit (take 10 (unique_units cs))])
      else if \<not> truthy (flow_lang (prefilled ud q cs))
      then (Some ((unit_settled (prefilled ud q cs))\<lparr>flow_stage := Some StageLang\<rparr>), [AskLang])
      else if \<not> truthy (flow_variant (prefilled ud q cs))
      then (Some ((unit_settled (prefilled ud q cs))\<lparr>flow_stage := Some StageVariant\<rparr>), [AskVariant])
      else finalize_and_send (unit_settled (prefilled ud q cs)))"
proof (cases "truthy (detect_unit_ref q)")
  case True
  then show ?thesis
    using c ne
    by (simp add: run_flow_def prefilled_def unit_settled_def Let_def ask_lang_def ask_variant_def
        split: prod.splits)
next
  case False
  show ?thesis
  proof (cases "truthy (flow_unit_ref (ensure_flow ud))")
    case True
    with False show ?thesis
      using c ne
      by (simp add: run_flow_def prefilled_def unit_settled_def Let_def ask_lang_def ask_variant_def
          split: prod.splits)
  next
    case u: False
    show ?thesis
    proof (cases "1 < length (unique_units cs)")
      case True
      with False u show ?thesis
        using c ne
        by (simp add: run_flow_def prefilled_def Let_def ask_unit_def)
    next
      case False
      with \<open>\<not> truthy (detect_unit_ref q)\<close> u show ?thesis
        using c ne
        by (simp add: run_flow_def prefilled_def unit_settled_def Let_def ask_unit_def ask_lang_def
            ask_variant_def not_less split: prod.splits)
    qed
  qed
qed

lemma run_flow_empty:
  "candidates_for_query scorer catalog q = (cs, sc) \<Longrightarrow> cs = [] \<Longrightarrow>
     run_flow scorer catalog ud q = (None, [NoSheetFound])"
  by (simp add: run_flow_def Let_def reset_flow_def)

lemma prefilled_stage:
  "prefilled (Some (f\<lparr>flow_stage := st\<rparr>)) q cs = (prefilled (Some f) q cs)\<lparr>flow_stage := st\<rparr>"
  by (simp add: prefilled_def ensure_flow_def)

lemma unit_settled_stage:
  "unit_settled (g\<lparr>flow_stage := st\<rparr>) = (unit_settled g)\<lparr>flow_stage := st\<rparr>"
  by (simp add: unit_settled_def)

lemma finalize_stage_indep:
  "finalize_and_send (g\<lparr>flow_stage := st\<rparr>) = finalize_and_send g"
  by (simp add: finalize_chain)

lemma run_flow_stage_indep:
  "run_flow scorer catalog (Some (f\<lparr>flow_stage := st\<rparr>)) q = run_flow scorer catalog (Some f) q"
proof (cases "candidates_for_query scorer catalog q")
  case (Pair cs sc)
  show ?thesis
  proof (cases "cs = []")
    case True
    with Pair show ?thesis by (simp add: run_flow_empty)
  next
    case False
    show ?thesis
      by (simp add: run_flow_exits [OF Pair False] prefilled_stage unit_settled_stage
          finalize_stage_indep)
  qed
qed

lemma unit_settled_fields:
  "flow_query (unit_settled g) = flow_query g" "flow_cands (unit_settled g) = flow_cands g"
  "flow_lang (unit_settled g) = flow_lang g" "flow_variant (unit_settled g) = flow_variant g"
  "truthy (flow_unit_ref g) \<Longrightarrow> flow_unit_ref (unit_settled g) = flow_unit_ref g"
  by (simp_all add: unit_settled_def)

lemma prefilled_fields:
  "flow_query (prefilled ud q cs) = Some q" "flow_cands (prefilled ud q cs) = cs"
  "flow_lang (prefilled ud q cs) = py_or (detect_lang q) (flow_lang (ensure_flow ud))"
  "flow_variant (prefilled ud q cs) = py_or (detect_variant q) (flow_variant (ensure_flow ud))"
  "flow_unit_ref (prefilled ud q cs) =
     (if truthy (detect_unit_ref q) then detect_unit_ref q else flow_unit_ref (ensure_flow ud))"
  by (simp_all add: prefilled_def)

lemma unit_settled_as_update:
  "unit_settled g = g\<lparr>flow_unit_ref := flow_unit_ref (unit_settled g)\<rparr>"
  by (simp add: unit_settled_def)

lemma prefilled_as_update:
  "(prefilled (Some f) q cs)\<lparr>flow_unit_ref := u\<rparr> =
     f\<lparr>flow_query := Some q, flow_cands := cs,
       flow_lang := py_or (detect_lang q) (flow_lang f),
       flow_variant := py_or (detect_variant q) (flow_variant f),
       flow_unit_ref := u\<rparr>"
  by (simp add: prefilled_def ensure_flow_def)

lemma run_flow_survivor:
  assumes c: "candidates_for_query scorer catalog q = (cs, sc)" and ne: "cs \<noteq> []"
    and s: "fst (run_flow scorer catalog (Some f) q) = Some f'"
  shows "flow_query f' = Some q" "flow_cands f' = cs"
    "flow_lang f' = py_or (detect_lang q) (flow_lang f)"
    "flow_variant f' = py_or (detect_variant q) (flow_variant f)"
    "truthy (flow_unit_ref f) \<and> detect_unit_ref q = None \<longrightarrow> flow_unit_ref f' = flow_unit_ref f"
proof -
  let ?g = "prefilled (Some f) q cs"
  from s consider st where "f' = ?g\<lparr>flow_stage := st\<rparr>" "\<not> truthy (flow_unit_ref ?g)"
    | st where "f' = (unit_settled ?g)\<lparr>flow_stage := st\<rparr>"
    by (auto simp: run_flow_exits [OF c ne] finalize_chain split: if_splits)
  note cases = this
  show "flow_query f' = Some q"
    by (rule cases) (simp_all add: unit_settled_fields prefilled_fields)
  show "flow_cands f' = cs"
    by (rule cases) (simp_all add: unit_settled_fields prefilled_fields)
  show "flow_lang f' = py_or (detect_lang q) (flow_lang f)"
    by (rule cases) (simp_all add: unit_settled_fields prefilled_fields ensure_flow_def)
  show "flow_variant f' = py_or (detect_variant q) (flow_variant f)"
    by (rule cases) (simp_all add: unit_settled_fields prefilled_fields ensure_flow_def)
  show "truthy (flow_unit_ref f) \<and> detect_unit_ref q = None \<longrightarrow> flow_unit_ref f' = flow_unit_ref f"
    by (rule cases) (auto simp: unit_settled_fields prefilled_fields ensure_flow_def)
qed

lemma run_flow_finalized:
  assumes c: "candidates_for_query scorer catalog q = (cs, sc)" and ne: "cs \<noteq> []"
    and s: "fst (run_flow scorer catalog (Some f) q) = None"
  shows "\<exists>u. snd (run_flow scorer catalog (Some f) q) =
              snd (finalize_and_send (f\<lparr>flow_query := Some q, flow_cands := cs,
                     flow_lang := py_or (detect_lang q) (flow_lang f),
                     flow_variant := py_or (detect_variant q) (flow_variant f),
                     flow_unit_ref := u\<rparr>))
           \<and> (truthy (flow_unit_ref f) \<and> detect_unit_ref q = None \<longrightarrow> u = flow_unit_ref f)"
proof -
  let ?g = "prefilled (Some f) q cs"
  let ?u = "flow_unit_ref (unit_settled ?g)"
  from s have r: "run_flow scorer catalog (Some f) q = finalize_and_send (unit_settled ?g)"
    by (auto simp: run_flow_exits [OF c ne] split: if_splits)
  have "unit_settled ?g = ?g\<lparr>flow_unit_ref := ?u\<rparr>"
    by (rule unit_settled_as_update)
  then have e: "unit_settled ?g = f\<lparr>flow_query := Some q, flow_cands := cs,
       flow_lang := py_or (detect_lang q) (flow_lang f),
       flow_variant := py_or (detect_variant q) (flow_variant f),
       flow_unit_ref := ?u\<rparr>"
    by (simp only: prefilled_as_update)
  have "truthy (flow_unit_ref f) \<and> detect_unit_ref q = None \<longrightarrow> ?u = flow_unit_ref f"
    by (auto simp: unit_settled_fields prefilled_fields ensure_flow_def)
  with r e show ?thesis by metis
qed

lemma run_flow_questions:
  assumes c: "candidates_for_query scorer catalog q = (cs, sc)" and ne: "cs \<noteq> []"
  shows "truthy (flow_unit_ref f) \<longrightarrow> AskUnit us \<notin> set (snd (run_flow scorer catalog (Some f) q))"
    "truthy (flow_lang f) \<longrightarrow> AskLang \<notin> set (snd (run_flow scorer catalog (Some f) q))"
    "truthy (flow_variant f) \<longrightarrow> AskVariant \<notin> set (snd (run_flow scorer catalog (Some f) q))"
  by (simp_all add: run_flow_exits [OF c ne] finalize_no_question prefilled_fields truthy_py_or
      ensure_flow_def)

text \<open>
  Claim C8: a text query that arrives while a session is stored, in whatever stage, is
  resolved on that session without clearing it first.  The stage has no influence.  When
  candidates are found, a session that stays stored holds the new query and the new
  candidates, and its language and variant slots hold what the detectors found in the new
  query or else the old values; the old unit slot stays when the new query names no unit.
  When the flow ends in the finalizer, it runs on the session with these carried slots.  A
  slot filled in the old session suppresses its question.  When no candidate is found the
  session is cleared and the failure message is sent.
\<close>

theorem new_query_carries_slots:
  assumes "candidates_for_query scorer catalog q = (cs, sc)"
  shows "run_flow scorer catalog (Some (f\<lparr>flow_stage := st\<rparr>)) q = run_flow scorer catalog (Some f) q
   \<and> (cs = [] \<longrightarrow> run_flow scorer catalog (Some f) q = (None, [NoSheetFound]))
   \<and> (cs \<noteq> [] \<longrightarrow>
        (\<forall>f'. fst (run_flow scorer catalog (Some f) q) = Some f' \<longrightarrow>
           flow_query f' = Some q \<and> flow_cands f' = cs
           \<and> flow_lang f' = py_or (detect_lang q) (flow_lang f)
           \<and> flow_variant f' = py_or (detect_variant q) (flow_variant f)
           \<and> (truthy (flow_unit_ref f) \<and> detect_unit_ref q = None \<longrightarrow> flow_unit_ref f' = flow_unit_ref f))
        \<and> (fst (run_flow scorer catalog (Some f) q) = None \<longrightarrow>
             (\<exists>u. snd (run_flow scorer catalog (Some f) q) =
                   snd (finalize_and_send (f\<lparr>flow_query := Some q, flow_cands := cs,
                          flow_lang := py_or (detect_lang q) (flow_lang f),
                          flow_variant := py_or (detect_variant q) (flow_variant f),
                          flow_unit_ref := u\<rparr>))
                \<and> (truthy (flow_unit_ref f) \<and> detect_unit_ref q = None \<longrightarrow> u = flow_unit_ref f)))
        \<and> (truthy (flow_unit_ref f) \<longrightarrow> (\<forall>us. AskUnit us \<notin> set (snd (run_flow scorer catalog (Some f) q))))
        \<and> (truthy (flow_lang f) \<longrightarrow> AskLang \<notin> set (snd (run_flow scorer catalog (Some f) q)))
        \<and> (truthy (flow_variant f) \<longrightarrow> AskVariant \<notin> set (snd (run_flow scorer catalog (Some f) q))))"
proof -
  have a: "run_flow scorer catalog (Some (f\<lparr>flow_stage := st\<rparr>)) q = run_flow scorer catalog (Some f) q"
    by (rule run_flow_stage_indep)
  have b: "cs = [] \<longrightarrow> run_flow scorer catalog (Some f) q = (None, [NoSheetFound])"
    using run_flow_empty [OF assms] by blast
  show ?thesis
  proof (cases "cs = []")
    case True
    with a b show ?thesis by simp
  next
    case False
    note sv = run_flow_survivor [OF assms False]
    note fi = run_flow_finalized [OF assms False]
    note qu = run_flow_questions [OF assms False, of f]
    from a False sv fi qu show ?thesis by blast
  qed
qed

text \<open>Runs on the small catalog.\<close>

lemma small_so455:
  "candidates_for_query prefix_scorer small_catalog ''so455'' = ([so455_49_es], 100)"
  "candidates_for_query prefix_scorer small_catalog ''Pardo P43 en'' = ([p43_126_es, p43_126_en, p43_130_es], 100)"
  by code_simp+

lemma small_stale:
  "run_flow prefix_scorer small_catalog
     (Some \<lparr>flow_query = Some ''Pardo P43 #126'', flow_cands = [p43_126_es, p43_126_en],
        flow_unit_ref = Some ''126'', flow_lang = None, flow_variant = None,
        flow_stage = Some StageLang\<rparr>) ''so455''
   = (Some \<lparr>flow_query = Some ''so455'', flow_cands = [so455_49_es],
        flow_unit_ref = Some ''126'', flow_lang = None, flow_variant = None,
        flow_stage = Some StageLang\<rparr>, [AskLang])"
  "detect_unit_ref ''so455'' = None"
  by code_simp+

text \<open>
  Witness for C8: a session that waits for the language of unit 126 of the Pardo P43
  receives the query \<open>so455\<close>.  The query and the candidates are replaced, the unit slot
  still holds 126 (no unit of the new model), and no unit question is asked.
\<close>

theorem new_query_carries_slots_witness:
  "fst (run_flow prefix_scorer small_catalog
     (Some \<lparr>flow_query = Some ''Pardo P43 #126'', flow_cands = [p43_126_es, p43_126_en],
        flow_unit_ref = Some ''126'', flow_lang = None, flow_variant = None,
        flow_stage = Some StageLang\<rparr>) ''so455'')
   = Some \<lparr>flow_query = Some ''so455'', flow_cands = [so455_49_es],
        flow_unit_ref = Some ''126'', flow_lang = None, flow_variant = None,
        flow_stage = Some StageLang\<rparr>
   \<and> flow_unit_ref \<lparr>flow_query = Some ''so455'', flow_cands = [so455_49_es],
        flow_unit_ref = Some ''126'', flow_lang = None, flow_variant = None,
        flow_stage = Some StageLang\<rparr> = Some ''126''
   \<and> AskUnit [so455_49_es] \<notin> set (snd (run_flow prefix_scorer small_catalog
     (Some \<lparr>flow_query = Some ''Pardo P43 #126'', flow_cands = [p43_126_es, p43_126_en],
        flow_unit_ref = Some ''126'', flow_lang = None, flow_variant = None,
        flow_stage = Some StageLang\<rparr>) ''so455''))"
  using new_query_carries_slots [OF small_so455(1),
      of "Some StageLang" "\<lparr>flow_query = Some ''Pardo P43 #126'', flow_cands = [p43_126_es, p43_126_en],
        flow_unit_ref = Some ''126'', flow_lang = None, flow_variant = None,
        flow_stage = Some StageLang\<rparr>"]
  by (simp add: small_stale)

end
